theory Spec2Isabelle
  imports Complex_Main "HOL-Library.Word"
begin

section \<open>AudioSDRpreProcessor: I2S single-sample delay correction\<close>

text \<open>
  A shallow embedding of \<^verbatim>\<open>AudioSDRpreProcessor::update\<close> and of the public
  control functions of \<^verbatim>\<open>src/src/AudioSDRpreProcessor.cpp\<close>.

  One call of \<^verbatim>\<open>update\<close> is one tick. The object's member variables are a record
  that the tick takes and returns; the two blocks obtained from
  \<^verbatim>\<open>receiveWritable\<close> are optional sample lists (\<open>None\<close> for a NULL pointer);
  the calls to \<^verbatim>\<open>transmit\<close> and \<^verbatim>\<open>release\<close> are returned as a list of events
  in program order.
\<close>

subsection \<open>Data\<close>

type_synonym sample = "16 word"
  \<comment> \<open>\<^verbatim>\<open>int16_t\<close>, one element of \<^verbatim>\<open>audio_block_t::data\<close>\<close>

text \<open>
  Modelled from the spec: the block length \<^verbatim>\<open>n_block\<close> is declared in the header
  \<^verbatim>\<open>AudioSDRpreProcessor.h\<close>, which is not part of the sources; the spec fixes a
  SampleBlock at 128 samples, and the source's own loops over a whole block run to the
  literal 128.
\<close>

definition n_block :: nat where
  "n_block = 128"

definition n_FFT :: nat where
  \<comment> \<open>the local constant \<^verbatim>\<open>n_FFT\<close> of \<^verbatim>\<open>update\<close>\<close>
  "n_FFT = 128"

definition min_line :: nat where
  \<comment> \<open>the local constant \<^verbatim>\<open>min\<close> of \<^verbatim>\<open>update\<close>\<close>
  "min_line = 5"

text \<open>
  The member variables. Their declarations are in the absent header. The mode and the
  two counters are read here as mathematical integers: each counter is reset, or is no
  longer incremented, once it exceeds its limit, so with limits below the largest machine
  integer no increment of the source overflows. The carried sample is a 16-bit sample.
  The float working array \<^verbatim>\<open>buffer\<close> is a map from index to value, over a type
  \<open>'f\<close> of float values.
\<close>

record 'f preproc =
  I2Scorrection :: int
  savedSample :: sample
  autoDetectFlag :: bool
  failureCount :: int
  successCount :: int
  IQswap :: bool
  buffer :: "nat \<Rightarrow> 'f"

text \<open>
  The single-precision arithmetic of the detector is left uninterpreted: every
  floating-point operation that \<^verbatim>\<open>update\<close> performs is a field of the record
  \<open>float_ops\<close>. The two CMSIS primitives, whose code is outside the repository, are
  the fields of the record \<open>primitives\<close>; both work in place on \<^verbatim>\<open>buffer\<close>.
\<close>

record 'f float_ops =
  f_zero :: 'f
    \<comment> \<open>the literal \<^verbatim>\<open>0.0\<close>\<close>
  f_add :: "'f \<Rightarrow> 'f \<Rightarrow> 'f"
  f_mul :: "'f \<Rightarrow> 'f \<Rightarrow> 'f"
  f_div :: "'f \<Rightarrow> 'f \<Rightarrow> 'f"
  f_less :: "'f \<Rightarrow> 'f \<Rightarrow> bool"
    \<comment> \<open>\<^verbatim>\<open>a < b\<close>; the source's \<^verbatim>\<open>a > b\<close> is \<open>f_less b a\<close>\<close>
  f_of_int :: "int \<Rightarrow> 'f"
    \<comment> \<open>conversion of an \<^verbatim>\<open>int\<close> operand\<close>
  f_norm :: "sample \<Rightarrow> 'f"
    \<comment> \<open>\<^verbatim>\<open>float(x) / 32767.0\<close>\<close>

record 'f primitives =
  arm_cfft_f32 :: "(nat \<Rightarrow> 'f) \<Rightarrow> (nat \<Rightarrow> 'f)"
    \<comment> \<open>\<^verbatim>\<open>arm_cfft_f32(&arm_cfft_sR_f32_len128, buffer, 0, 1)\<close>\<close>
  arm_cmplx_mag_squared_f32 :: "(nat \<Rightarrow> 'f) \<Rightarrow> (nat \<Rightarrow> 'f)"
    \<comment> \<open>\<^verbatim>\<open>arm_cmplx_mag_squared_f32(buffer, buffer, 128)\<close>\<close>

text \<open>The detector's thresholds, members or constants of the absent header.\<close>

record 'f thresholds =
  spectralAvgMultiplier :: 'f
  minImbalanceRatio :: 'f
  maxFailureCount :: int
  maxSuccessCount :: int

datatype block_id = BlockI | BlockQ

datatype event =
    Transmit block_id "sample list" nat
      \<comment> \<open>\<^verbatim>\<open>transmit(block, channel)\<close> with the block's samples at that moment\<close>
  | Release block_id

subsection \<open>Delay compensation\<close>

text \<open>
  \<^verbatim>\<open>for (int i = n_block - 1; i > 0; i--) data[i] = data[i - 1];\<close>
  The first argument is the current value of \<^verbatim>\<open>i\<close>.
\<close>

fun shift_loop :: "nat \<Rightarrow> sample list \<Rightarrow> sample list" where
  "shift_loop 0 d = d"
| "shift_loop (Suc i) d = shift_loop i (d[Suc i := d ! i])"

definition delay_compensation ::
  "'f preproc \<Rightarrow> sample list \<Rightarrow> sample list \<Rightarrow> 'f preproc \<times> sample list \<times> sample list" where
  "delay_compensation s blockI blockQ =
     (if I2Scorrection s = 1 then
        (let temp = blockI ! (n_block - 1);
             dI = shift_loop (n_block - 1) blockI;
             dI = dI[0 := savedSample s]
         in (s\<lparr>savedSample := temp\<rparr>, dI, blockQ))
      else if I2Scorrection s = - 1 then
        (let temp = blockQ ! (n_block - 1);
             dQ = shift_loop (n_block - 1) blockQ;
             dI = blockI[0 := savedSample s]
         in (s\<lparr>savedSample := temp\<rparr>, dI, dQ))
      else (s, blockI, blockQ))"

subsection \<open>Delay detection\<close>

text \<open>
  \<^verbatim>\<open>for (int i = 0; i < 128; i++) { buffer[2*i] = ...; buffer[2*i+1] = ...; }\<close>
\<close>

function fill_loop ::
  "'f float_ops \<Rightarrow> sample list \<Rightarrow> sample list \<Rightarrow> nat \<Rightarrow> (nat \<Rightarrow> 'f) \<Rightarrow> (nat \<Rightarrow> 'f)" where
  "fill_loop ops blockI blockQ i buf =
     (if i < 128 then
        fill_loop ops blockI blockQ (Suc i)
          (buf(2 * i := f_norm ops (blockI ! i), 2 * i + 1 := f_norm ops (blockQ ! i)))
      else buf)"
  by pat_completeness auto
termination
  by (relation "measure (\<lambda>(ops, blockI, blockQ, i, buf). 128 - i)") auto

definition spectrum ::
  "'f float_ops \<Rightarrow> 'f primitives \<Rightarrow> (nat \<Rightarrow> 'f) \<Rightarrow> sample list \<Rightarrow> sample list \<Rightarrow>
     (nat \<Rightarrow> 'f)" where
  \<comment> \<open>lines 103 to 111: the buffer after the fill loop and the two primitives\<close>
  "spectrum ops prim buf blockI blockQ =
     arm_cmplx_mag_squared_f32 prim (arm_cfft_f32 prim (fill_loop ops blockI blockQ 0 buf))"

text \<open>
  \<^verbatim>\<open>for (int i = min; i < (n_FFT - min); i++) { ... }\<close>
  The accumulator is (\<^verbatim>\<open>average_power\<close>, \<^verbatim>\<open>maximum_power\<close>, \<^verbatim>\<open>maxLine\<close>).
\<close>

function line_loop ::
  "'f float_ops \<Rightarrow> (nat \<Rightarrow> 'f) \<Rightarrow> nat \<Rightarrow> 'f \<times> 'f \<times> nat \<Rightarrow> 'f \<times> 'f \<times> nat" where
  "line_loop ops buf i (average_power, maximum_power, maxLine) =
     (if i < n_FFT - min_line then
        line_loop ops buf (Suc i)
          (f_add ops average_power (buf i),
           if f_less ops maximum_power (buf i) then buf i else maximum_power,
           if f_less ops maximum_power (buf i) then i else maxLine)
      else (average_power, maximum_power, maxLine))"
  by pat_completeness auto
termination
  by (relation "measure (\<lambda>(ops, buf, i, acc). (n_FFT - min_line) - i)") auto

record 'f detector_vars =
  maxLine :: nat
  average_power :: 'f
  maximum_power :: 'f
  imbalance_ratio :: 'f

definition detect :: "'f float_ops \<Rightarrow> (nat \<Rightarrow> 'f) \<Rightarrow> 'f detector_vars" where
  \<comment> \<open>lines 114 to 129, on the buffer that holds the power spectrum\<close>
  "detect ops buf =
     (case line_loop ops buf min_line (f_zero ops, f_zero ops, 0) of
        (sum_power, max_power, line) \<Rightarrow>
          \<lparr> maxLine = line,
            average_power = f_div ops sum_power (f_of_int ops (int n_FFT - 2 * int min_line)),
            maximum_power = max_power,
            imbalance_ratio = f_div ops max_power (buf (n_FFT - line)) \<rparr>)"

definition strength_gate :: "'f float_ops \<Rightarrow> 'f thresholds \<Rightarrow> 'f detector_vars \<Rightarrow> bool" where
  \<comment> \<open>\<^verbatim>\<open>maximum_power > spectralAvgMultiplier * average_power\<close>\<close>
  "strength_gate ops th d =
     f_less ops (f_mul ops (spectralAvgMultiplier th) (average_power d)) (maximum_power d)"

definition ratio_too_low :: "'f float_ops \<Rightarrow> 'f thresholds \<Rightarrow> 'f detector_vars \<Rightarrow> bool" where
  \<comment> \<open>\<^verbatim>\<open>imbalance_ratio < minImbalanceRatio\<close>\<close>
  "ratio_too_low ops th d = f_less ops (imbalance_ratio d) (minImbalanceRatio th)"

definition count_failure :: "bool \<Rightarrow> 'f preproc \<Rightarrow> 'f preproc" where
  \<comment> \<open>lines 134 to 137\<close>
  "count_failure low s =
     (if low then s\<lparr>failureCount := failureCount s + 1\<rparr> else s\<lparr>failureCount := 0\<rparr>)"

definition next_correction :: "'f thresholds \<Rightarrow> 'f preproc \<Rightarrow> 'f preproc" where
  \<comment> \<open>lines 139 to 147\<close>
  "next_correction th s =
     (if failureCount s > maxFailureCount th then
        (let s = s\<lparr>I2Scorrection := I2Scorrection s + 1\<rparr>;
             s = (if I2Scorrection s > 1 then s\<lparr>I2Scorrection := - 1\<rparr> else s)
         in s\<lparr>failureCount := 0, successCount := 0\<rparr>)
      else s)"

definition auto_detect ::
  "'f float_ops \<Rightarrow> 'f thresholds \<Rightarrow> 'f detector_vars \<Rightarrow> 'f preproc \<Rightarrow> 'f preproc" where
  \<comment> \<open>lines 131 to 153\<close>
  "auto_detect ops th d s =
     (let s = (if strength_gate ops th d then
                 (let s = count_failure (ratio_too_low ops th d) s;
                      s = next_correction th s
                  in s\<lparr>successCount := successCount s + 1\<rparr>)
               else s)
      in if successCount s > maxSuccessCount th then s\<lparr>autoDetectFlag := False\<rparr> else s)"

subsection \<open>Channel swap\<close>

text \<open>
  \<^verbatim>\<open>for (int i = 0; i < 128; i++) { int temp = I[i]; I[i] = Q[i]; Q[i] = temp; }\<close>
  The \<^verbatim>\<open>int\<close> temporary holds every 16-bit sample unchanged.
\<close>

function swap_loop :: "nat \<Rightarrow> sample list \<times> sample list \<Rightarrow> sample list \<times> sample list" where
  "swap_loop i (dI, dQ) =
     (if i < 128 then
        (let temp = dI ! i;
             dI = dI[i := dQ ! i];
             dQ = dQ[i := temp]
         in swap_loop (Suc i) (dI, dQ))
      else (dI, dQ))"
  by pat_completeness auto
termination
  by (relation "measure (\<lambda>(i, b). 128 - i)") auto

definition channel_swap :: "sample list \<times> sample list \<Rightarrow> sample list \<times> sample list" where
  "channel_swap b = swap_loop 0 b"

subsection \<open>The tick\<close>

text \<open>
  \<open>update ops prim th s rI rQ\<close>: \<open>rI\<close> and \<open>rQ\<close> are the results of
  \<^verbatim>\<open>receiveWritable(0)\<close> and \<^verbatim>\<open>receiveWritable(1)\<close>. The result is the new member
  variables and the events of the call.
\<close>

definition detection ::
  "'f float_ops \<Rightarrow> 'f primitives \<Rightarrow> 'f thresholds \<Rightarrow> 'f preproc \<Rightarrow>
     sample list \<Rightarrow> sample list \<Rightarrow> 'f preproc" where
  \<comment> \<open>lines 97 to 154, on the blocks as the compensation left them\<close>
  "detection ops prim th s dI dQ =
     (if autoDetectFlag s then
        (let s = s\<lparr>buffer := spectrum ops prim (buffer s) dI dQ\<rparr>
         in auto_detect ops th (detect ops (buffer s)) s)
      else s)"

definition update ::
  "'f float_ops \<Rightarrow> 'f primitives \<Rightarrow> 'f thresholds \<Rightarrow> 'f preproc \<Rightarrow>
     sample list option \<Rightarrow> sample list option \<Rightarrow> 'f preproc \<times> event list" where
  "update ops prim th s rI rQ =
     (case (rI, rQ) of
        (Some blockI, Some blockQ) \<Rightarrow>
          (case delay_compensation s blockI blockQ of
             (s, dI, dQ) \<Rightarrow>
               (let s = detection ops prim th s dI dQ;
                    (dI, dQ) = (if IQswap s then channel_swap (dI, dQ) else (dI, dQ))
                in (s, [Transmit BlockI dI 0, Transmit BlockQ dQ 1,
                        Release BlockQ, Release BlockI])))
      | _ \<Rightarrow>
          (s, (if rI \<noteq> None then [Release BlockI] else []) @
              (if rQ \<noteq> None then [Release BlockQ] else [])))"

text \<open>A run of ticks: one pair of received blocks per tick.\<close>

fun run :: "'f float_ops \<Rightarrow> 'f primitives \<Rightarrow> 'f thresholds \<Rightarrow> 'f preproc \<Rightarrow>
     (sample list option \<times> sample list option) list \<Rightarrow> 'f preproc" where
  "run ops prim th s [] = s"
| "run ops prim th s ((rI, rQ) # ticks) =
     run ops prim th (fst (update ops prim th s rI rQ)) ticks"

text \<open>
  The detector's variables in a tick that received both blocks and has detection enabled,
  and the lines that the scan loop visits.
\<close>

definition tick_detector ::
  "'f float_ops \<Rightarrow> 'f primitives \<Rightarrow> 'f preproc \<Rightarrow> sample list \<Rightarrow> sample list \<Rightarrow>
     'f detector_vars" where
  "tick_detector ops prim s blockI blockQ =
     (case delay_compensation s blockI blockQ of
        (s, dI, dQ) \<Rightarrow> detect ops (spectrum ops prim (buffer s) dI dQ))"

definition failure_limit_crossed ::
  "'f float_ops \<Rightarrow> 'f primitives \<Rightarrow> 'f thresholds \<Rightarrow> 'f preproc \<Rightarrow>
     sample list \<Rightarrow> sample list \<Rightarrow> bool" where
  \<comment> \<open>the tick passes the strength gate and its verdict takes \<^verbatim>\<open>failureCount\<close> above
      \<^verbatim>\<open>maxFailureCount\<close> (the test of line 139)\<close>
  "failure_limit_crossed ops prim th s blockI blockQ \<longleftrightarrow>
     strength_gate ops th (tick_detector ops prim s blockI blockQ) \<and>
     maxFailureCount th <
       failureCount
         (count_failure (ratio_too_low ops th (tick_detector ops prim s blockI blockQ)) s)"

definition window :: "nat set" where
  "window = {min_line..<n_FFT - min_line}"

text \<open>
  What a tick hands downstream: the block transmitted on an output, and the samples of
  channel I, which leave on output 0, or on output 1 when the channels are swapped.
\<close>

fun transmitted :: "event list \<Rightarrow> nat \<Rightarrow> sample list option" where
  "transmitted [] c = None"
| "transmitted (Transmit b d c' # es) c = (if c' = c then Some d else transmitted es c)"
| "transmitted (Release b # es) c = transmitted es c"

definition emitted_I :: "'f preproc \<Rightarrow> event list \<Rightarrow> sample list option" where
  "emitted_I s es = transmitted es (if IQswap s then 1 else 0)"

subsection \<open>Public functions\<close>

definition startAutoI2SerrorDetection :: "'f preproc \<Rightarrow> 'f preproc" where
  "startAutoI2SerrorDetection s =
     s\<lparr>autoDetectFlag := True, I2Scorrection := 0, failureCount := 0, successCount := 0\<rparr>"

definition stopAutoI2SerrorDetection :: "'f preproc \<Rightarrow> 'f preproc" where
  "stopAutoI2SerrorDetection s = s\<lparr>autoDetectFlag := False, I2Scorrection := 0\<rparr>"

definition setI2SerrorCompensation :: "int \<Rightarrow> 'f preproc \<Rightarrow> 'f preproc" where
  "setI2SerrorCompensation correction s =
     s\<lparr>I2Scorrection := correction, autoDetectFlag := False\<rparr>"

definition swapIQ :: "bool \<Rightarrow> 'f preproc \<Rightarrow> 'f preproc" where
  "swapIQ swap s = s\<lparr>IQswap := swap\<rparr>"

subsection \<open>Concrete instances\<close>

text \<open>
  Exact arithmetic on the reals as one instance of the float operations (with HOL's
  \<open>x / 0 = 0\<close>), used to evaluate the definitions at concrete inputs.
\<close>

definition exact_ops :: "real float_ops" where
  "exact_ops =
     \<lparr> f_zero = 0, f_add = (+), f_mul = (*), f_div = (/), f_less = (<),
       f_of_int = real_of_int, f_norm = (\<lambda>x. real_of_int (sint x) / 32767) \<rparr>"

text \<open>
  Modelled from the spec: the transform primitive, "given 128 interleaved real/imaginary
  float pairs, produce the in-place length-128 complex DFT, and a magnitude-squared
  operator over the transformed buffer". The code of \<^verbatim>\<open>arm_cfft_f32\<close> and
  \<^verbatim>\<open>arm_cmplx_mag_squared_f32\<close> is not part of the sources. Here they are in exact
  arithmetic: the forward DFT of the 128 complex values in elements 0 to 255, and the 128
  squared magnitudes written to elements 0 to 127, the elements above left as they are.
\<close>

definition exact_cfft :: "(nat \<Rightarrow> real) \<Rightarrow> (nat \<Rightarrow> real)" where
  "exact_cfft b j =
     (if j < 256 then
        (if even j then
           (\<Sum>n<128. b (2 * n) * cos (2 * pi * real (j div 2) * real n / 128)
                  + b (2 * n + 1) * sin (2 * pi * real (j div 2) * real n / 128))
         else
           (\<Sum>n<128. b (2 * n + 1) * cos (2 * pi * real (j div 2) * real n / 128)
                  - b (2 * n) * sin (2 * pi * real (j div 2) * real n / 128)))
      else b j)"

definition exact_mag_squared :: "(nat \<Rightarrow> real) \<Rightarrow> (nat \<Rightarrow> real)" where
  "exact_mag_squared b j = (if j < 128 then (b (2 * j))\<^sup>2 + (b (2 * j + 1))\<^sup>2 else b j)"

definition exact_primitives :: "real primitives" where
  "exact_primitives =
     \<lparr> arm_cfft_f32 = exact_cfft, arm_cmplx_mag_squared_f32 = exact_mag_squared \<rparr>"

definition zero_block :: "sample list" where
  "zero_block = replicate 128 0"

definition impulse_block :: "sample list" where
  \<comment> \<open>a unit impulse on one channel: full scale at index 0, zero after it\<close>
  "impulse_block = 32767 # replicate 127 0"

text \<open>
  What the zero signal needs from the arithmetic and from the primitives: zero power in
  every line of the window, \<^verbatim>\<open>0.0 + 0.0 = 0.0\<close>, and
  \<^verbatim>\<open>spectralAvgMultiplier * (0.0 / 118)\<close> not below \<^verbatim>\<open>0.0\<close>.
\<close>

definition zero_signal_laws :: "'f float_ops \<Rightarrow> 'f primitives \<Rightarrow> 'f thresholds \<Rightarrow> bool" where
  "zero_signal_laws ops prim th \<longleftrightarrow>
     (\<forall>b. \<forall>j\<in>window. spectrum ops prim b zero_block zero_block j = f_zero ops) \<and>
     f_add ops (f_zero ops) (f_zero ops) = f_zero ops \<and>
     \<not> f_less ops
         (f_mul ops (spectralAvgMultiplier th)
            (f_div ops (f_zero ops) (f_of_int ops (int n_FFT - 2 * int min_line))))
         (f_zero ops)"

text \<open>
  The comparison \<^verbatim>\<open><\<close> as a strict linear order on a set of float values (as it is on
  the finite, non-negative powers of a spectrum).
\<close>

definition linear_on :: "'f float_ops \<Rightarrow> 'f set \<Rightarrow> bool" where
  "linear_on ops S \<longleftrightarrow>
     (\<forall>x\<in>S. \<not> f_less ops x x) \<and>
     (\<forall>x\<in>S. \<forall>y\<in>S. \<forall>z\<in>S. f_less ops x y \<longrightarrow> f_less ops y z \<longrightarrow> f_less ops x z) \<and>
     (\<forall>x\<in>S. \<forall>y\<in>S. x \<noteq> y \<longrightarrow> f_less ops x y \<or> f_less ops y x)"

definition silence :: "nat \<Rightarrow> real" where
  \<comment> \<open>the buffer with zero in every element\<close>
  "silence i = 0"

definition delayQ_state :: "real preproc" where
  "delayQ_state =
     \<lparr> I2Scorrection = - 1, savedSample = 7, autoDetectFlag = False, failureCount = 0,
       successCount = 0, IQswap = False, buffer = silence \<rparr>"

definition delayI_state :: "real preproc" where
  "delayI_state =
     \<lparr> I2Scorrection = 1, savedSample = 7, autoDetectFlag = False, failureCount = 0,
       successCount = 0, IQswap = True, buffer = silence \<rparr>"

definition detecting_state :: "real preproc" where
  \<comment> \<open>detection running, no failure yet, three evaluations counted\<close>
  "detecting_state =
     \<lparr> I2Scorrection = 0, savedSample = 0, autoDetectFlag = True, failureCount = 0,
       successCount = 3, IQswap = False, buffer = silence \<rparr>"

definition failing_state :: "real preproc" where
  \<comment> \<open>detection running with DelayI, five failures in a row, a full-scale sample carried\<close>
  "failing_state =
     \<lparr> I2Scorrection = 1, savedSample = 32767, autoDetectFlag = True, failureCount = 5,
       successCount = 6, IQswap = False, buffer = silence \<rparr>"

definition confident_state :: "real preproc" where
  \<comment> \<open>detection running, one hundred evaluations counted\<close>
  "confident_state =
     \<lparr> I2Scorrection = 0, savedSample = 0, autoDetectFlag = True, failureCount = 0,
       successCount = 100, IQswap = False, buffer = silence \<rparr>"

definition example_thresholds :: "real thresholds" where
  "example_thresholds =
     \<lparr> spectralAvgMultiplier = 1 / 2, minImbalanceRatio = 2, maxFailureCount = 5,
       maxSuccessCount = 100 \<rparr>"

text \<open>
  A history that starts detection on an idle object and brings it to the mode, the carried
  sample and the counters of \<open>failing_state\<close>: six ticks with a unit impulse on
  channel I, which take \<^verbatim>\<open>failureCount\<close> above the limit 5 and the mode from 0 to 1,
  then six ticks with a block on channel I that is zero except for a full-scale last
  sample, which the DelayI correction carries into the next tick.
\<close>

definition tail_block :: "sample list" where
  "tail_block = replicate 127 0 @ [32767]"

definition idle_state :: "real preproc" where
  "idle_state =
     \<lparr> I2Scorrection = 0, savedSample = 0, autoDetectFlag = False, failureCount = 0,
       successCount = 0, IQswap = False, buffer = silence \<rparr>"

definition warm_up :: "(sample list option \<times> sample list option) list" where
  "warm_up =
     (let a = (Some impulse_block, Some zero_block); b = (Some tail_block, Some zero_block)
      in [a, a, a, a, a, a, b, b, b, b, b, b])"

definition warm_state :: "real preproc" where
  "warm_state =
     run exact_ops exact_primitives example_thresholds
       (startAutoI2SerrorDetection idle_state) warm_up"

text \<open>The mode, the carried sample, the detection flag and the two counters of a state.\<close>

definition counters :: "'f preproc \<Rightarrow> int \<times> sample \<times> bool \<times> int \<times> int" where
  "counters s =
     (I2Scorrection s, savedSample s, autoDetectFlag s, failureCount s, successCount s)"

section \<open>Properties\<close>

subsection \<open>The loops in closed form\<close>

declare fill_loop.simps [simp del] line_loop.simps [simp del] swap_loop.simps [simp del]

lemma shift_loop_eq:
  "i < length d \<Longrightarrow> shift_loop i d = hd d # take i d @ drop (Suc i) d"
proof (induction i arbitrary: d)
  case 0
  then show ?case by (cases d) simp_all
next
  case (Suc i)
  from Suc.prems have i: "i < length d" by simp
  have "shift_loop (Suc i) d = shift_loop i (d[Suc i := d ! i])" by simp
  also have "\<dots> = hd (d[Suc i := d ! i]) # take i (d[Suc i := d ! i]) @ drop (Suc i) (d[Suc i := d ! i])"
    using Suc.prems by (intro Suc.IH) simp
  also have "hd (d[Suc i := d ! i]) = hd d"
    using Suc.prems by (cases d) simp_all
  also have "take i (d[Suc i := d ! i]) = take i d" by simp
  also have "drop (Suc i) (d[Suc i := d ! i]) = d ! i # drop (Suc (Suc i)) d"
    using Suc.prems by (simp add: drop_update_swap Cons_nth_drop_Suc[symmetric] upd_conv_take_nth_drop)
  finally show ?case using i by (simp add: take_Suc_conv_app_nth)
qed

lemma shift_whole_block:
  assumes "length d = n_block"
  shows "shift_loop (n_block - 1) d = hd d # butlast d"
proof -
  have "shift_loop (n_block - 1) d = hd d # take (n_block - 1) d @ drop (Suc (n_block - 1)) d"
    using assms by (intro shift_loop_eq) (simp add: n_block_def)
  then show ?thesis using assms by (simp add: n_block_def butlast_conv_take)
qed

lemma swap_loop_eq:
  "length dI = 128 \<Longrightarrow> length dQ = 128 \<Longrightarrow> i \<le> 128 \<Longrightarrow>
     swap_loop i (dI, dQ) = (take i dI @ drop i dQ, take i dQ @ drop i dI)"
proof (induction i "(dI, dQ)" arbitrary: dI dQ rule: swap_loop.induct)
  case (1 i dI dQ)
  show ?case
  proof (cases "i < 128")
    case True
    let ?eI = "dI[i := dQ ! i]" and ?eQ = "dQ[i := dI ! i]"
    have "swap_loop i (dI, dQ) = swap_loop (Suc i) (?eI, ?eQ)"
      using True by (subst swap_loop.simps) (simp add: Let_def)
    also have "\<dots> = (take (Suc i) ?eI @ drop (Suc i) ?eQ, take (Suc i) ?eQ @ drop (Suc i) ?eI)"
      using True "1.prems" by (intro "1.hyps"[OF True refl refl refl]) simp_all
    also have "take (Suc i) ?eI @ drop (Suc i) ?eQ = take i dI @ drop i dQ"
      using True "1.prems"
      by (simp add: take_Suc_conv_app_nth Cons_nth_drop_Suc)
    also have "take (Suc i) ?eQ @ drop (Suc i) ?eI = take i dQ @ drop i dI"
      using True "1.prems"
      by (simp add: take_Suc_conv_app_nth Cons_nth_drop_Suc)
    finally show ?thesis .
  next
    case False
    with "1.prems" show ?thesis by (subst swap_loop.simps) simp
  qed
qed

lemma channel_swap_eq:
  "length dI = n_block \<Longrightarrow> length dQ = n_block \<Longrightarrow> channel_swap (dI, dQ) = (dQ, dI)"
  by (simp add: channel_swap_def n_block_def swap_loop_eq)

lemma fill_loop_eq:
  "i \<le> 128 \<Longrightarrow>
     fill_loop ops blockI blockQ i buf j =
       (if 2 * i \<le> j \<and> j < 256
        then f_norm ops ((if even j then blockI else blockQ) ! (j div 2))
        else buf j)"
proof (induction ops blockI blockQ i buf rule: fill_loop.induct)
  case (1 ops blockI blockQ i buf)
  show ?case
  proof (cases "i < 128")
    case True
    let ?buf = "buf(2 * i := f_norm ops (blockI ! i), 2 * i + 1 := f_norm ops (blockQ ! i))"
    have "fill_loop ops blockI blockQ i buf j = fill_loop ops blockI blockQ (Suc i) ?buf j"
      using True by (subst fill_loop.simps) simp
    also have "\<dots> = (if 2 * Suc i \<le> j \<and> j < 256
        then f_norm ops ((if even j then blockI else blockQ) ! (j div 2))
        else ?buf j)"
      using True by (intro "1.IH") simp_all
    also have "\<dots> = (if 2 * i \<le> j \<and> j < 256
        then f_norm ops ((if even j then blockI else blockQ) ! (j div 2))
        else buf j)"
    proof -
      have "j = 2 * i \<or> j = 2 * i + 1 \<or> j < 2 * i \<or> 2 * Suc i \<le> j" by arith
      then show ?thesis
        using True by auto
    qed
    finally show ?thesis .
  next
    case False
    with "1.prems" have "i = 128" by simp
    then show ?thesis by (subst fill_loop.simps) auto
  qed
qed

subsection \<open>Delay compensation in closed form\<close>

lemma delay_compensation_I:
  assumes "I2Scorrection s = 1" and "length blockI = n_block"
  shows "delay_compensation s blockI blockQ =
           (s\<lparr>savedSample := last blockI\<rparr>, savedSample s # butlast blockI, blockQ)"
proof -
  have "blockI \<noteq> []" using assms(2) by (auto simp: n_block_def)
  then have "blockI ! (n_block - 1) = last blockI"
    using assms(2) by (simp add: last_conv_nth)
  then show ?thesis
    using assms by (simp add: delay_compensation_def Let_def shift_whole_block del: One_nat_def)
qed

lemma delay_compensation_Q:
  assumes "I2Scorrection s = - 1" and "length blockQ = n_block"
  shows "delay_compensation s blockI blockQ =
           (s\<lparr>savedSample := last blockQ\<rparr>, blockI[0 := savedSample s], hd blockQ # butlast blockQ)"
proof -
  have "blockQ \<noteq> []" using assms(2) by (auto simp: n_block_def)
  then have "blockQ ! (n_block - 1) = last blockQ"
    using assms(2) by (simp add: last_conv_nth)
  then show ?thesis
    using assms by (simp add: delay_compensation_def Let_def shift_whole_block del: One_nat_def)
qed

lemma no_compensation:
  "I2Scorrection s = 0 \<Longrightarrow> delay_compensation s blockI blockQ = (s, blockI, blockQ)"
  by (simp add: delay_compensation_def)

lemma delay_compensation_frame:
  assumes "delay_compensation s blockI blockQ = (s1, dI, dQ)"
  shows "I2Scorrection s1 = I2Scorrection s" "autoDetectFlag s1 = autoDetectFlag s"
    "failureCount s1 = failureCount s" "successCount s1 = successCount s"
    "IQswap s1 = IQswap s" "buffer s1 = buffer s"
  using assms by (auto simp: delay_compensation_def Let_def split: if_splits)

lemma zero_compensation:
  assumes "savedSample s = 0 \<or> (I2Scorrection s \<noteq> 1 \<and> I2Scorrection s \<noteq> - 1)"
  shows "delay_compensation s zero_block zero_block = (s, zero_block, zero_block)"
proof -
  have len: "length zero_block = n_block" by (simp add: zero_block_def n_block_def)
  have l: "last zero_block = 0" and h: "hd zero_block = 0"
    by (simp_all add: zero_block_def)
  have c: "0 # butlast zero_block = zero_block"
    by (simp add: zero_block_def list_eq_iff_nth_eq nth_Cons' nth_butlast)
  have u: "zero_block[0 := 0] = zero_block"
    by (simp add: zero_block_def list_eq_iff_nth_eq nth_list_update)
  consider "I2Scorrection s = 1" | "I2Scorrection s = - 1"
    | "I2Scorrection s \<noteq> 1 \<and> I2Scorrection s \<noteq> - 1" by blast
  then show ?thesis
  proof cases
    case 1
    with assms have sv: "savedSample s = 0" by simp
    have "s\<lparr>savedSample := 0\<rparr> = s" using sv by simp
    then show ?thesis
      using delay_compensation_I[OF 1 len, of zero_block] by (simp add: sv l c)
  next
    case 2
    with assms have sv: "savedSample s = 0" by simp
    have "s\<lparr>savedSample := 0\<rparr> = s" using sv by simp
    then show ?thesis
      using delay_compensation_Q[OF 2 len, of zero_block] by (simp add: sv l h c u)
  next
    case 3
    then show ?thesis by (simp add: delay_compensation_def)
  qed
qed

lemma carry_compensation:
  "delay_compensation failing_state zero_block zero_block =
     (failing_state\<lparr>savedSample := 0\<rparr>, impulse_block, zero_block)"
proof -
  have "I2Scorrection failing_state = 1" and "length zero_block = n_block"
    by (simp_all add: failing_state_def zero_block_def n_block_def)
  from delay_compensation_I[OF this, of zero_block] show ?thesis
    by (simp add: failing_state_def zero_block_def impulse_block_def butlast_conv_take)
qed

subsection \<open>The scan for the strongest line\<close>

lemma line_loop_sum:
  "fst (line_loop ops buf i (a, m, l)) =
     foldl (f_add ops) a (map buf [i..<n_FFT - min_line])"
proof (induction ops buf i "(a, m, l)" arbitrary: a m l rule: line_loop.induct)
  case (1 ops buf i a m l)
  show ?case
  proof (cases "i < n_FFT - min_line")
    case True
    have "fst (line_loop ops buf i (a, m, l)) =
            fst (line_loop ops buf (Suc i)
                   (f_add ops a (buf i), if f_less ops m (buf i) then buf i else m,
                    if f_less ops m (buf i) then i else l))"
      using True by (subst line_loop.simps) simp
    also have "\<dots> = foldl (f_add ops) (f_add ops a (buf i)) (map buf [Suc i..<n_FFT - min_line])"
      by (rule "1.hyps"[OF True])
    finally show ?thesis using True by (simp add: upt_conv_Cons)
  next
    case False
    then show ?thesis by (subst line_loop.simps) simp
  qed
qed

lemma line_loop_shape:
  "line_loop ops buf i (a, m, l) = (a', m', l') \<Longrightarrow>
     (m' = m \<and> l' = l) \<or> (i \<le> l' \<and> l' < n_FFT - min_line \<and> m' = buf l')"
proof (induction ops buf i "(a, m, l)" arbitrary: a m l rule: line_loop.induct)
  case (1 ops buf i a m l)
  show ?case
  proof (cases "i < n_FFT - min_line")
    case True
    let ?m = "if f_less ops m (buf i) then buf i else m"
    let ?l = "if f_less ops m (buf i) then i else l"
    have "line_loop ops buf (Suc i) (f_add ops a (buf i), ?m, ?l) = (a', m', l')"
      using True "1.prems" by (subst (asm) line_loop.simps) simp
    from "1.hyps"[OF True this]
    have "(m' = ?m \<and> l' = ?l) \<or> (Suc i \<le> l' \<and> l' < n_FFT - min_line \<and> m' = buf l')" .
    then show ?thesis using True by (auto split: if_splits)
  next
    case False
    then show ?thesis using "1.prems" by (subst (asm) line_loop.simps) simp
  qed
qed

lemma line_loop_none:
  "\<forall>j. i \<le> j \<and> j < n_FFT - min_line \<longrightarrow> \<not> f_less ops m (buf j) \<Longrightarrow>
     snd (line_loop ops buf i (a, m, l)) = (m, l)"
proof (induction ops buf i "(a, m, l)" arbitrary: a m l rule: line_loop.induct)
  case (1 ops buf i a m l)
  show ?case
  proof (cases "i < n_FFT - min_line")
    case True
    then have n: "\<not> f_less ops m (buf i)" using "1.prems" by simp
    let ?m = "if f_less ops m (buf i) then buf i else m"
    let ?l = "if f_less ops m (buf i) then i else l"
    have "\<forall>j. Suc i \<le> j \<and> j < n_FFT - min_line \<longrightarrow> \<not> f_less ops ?m (buf j)"
      using n "1.prems" by simp
    from "1.hyps"[OF True this]
    have "snd (line_loop ops buf (Suc i) (f_add ops a (buf i), ?m, ?l)) = (?m, ?l)" .
    then show ?thesis using True n by (subst line_loop.simps) simp
  next
    case False
    then show ?thesis by (subst line_loop.simps) simp
  qed
qed

lemma line_loop_some:
  "\<exists>j. i \<le> j \<and> j < n_FFT - min_line \<and> f_less ops m (buf j) \<Longrightarrow>
   line_loop ops buf i (a, m, l) = (a', m', l') \<Longrightarrow>
     i \<le> l' \<and> l' < n_FFT - min_line \<and> m' = buf l'"
proof (induction ops buf i "(a, m, l)" arbitrary: a m l rule: line_loop.induct)
  case (1 ops buf i a m l)
  from "1.prems"(1) obtain j where j: "i \<le> j" "j < n_FFT - min_line" "f_less ops m (buf j)"
    by blast
  then have True: "i < n_FFT - min_line" by simp
  let ?m = "if f_less ops m (buf i) then buf i else m"
  let ?l = "if f_less ops m (buf i) then i else l"
  have rec: "line_loop ops buf (Suc i) (f_add ops a (buf i), ?m, ?l) = (a', m', l')"
    using True "1.prems"(2) by (subst (asm) line_loop.simps) simp
  show ?case
  proof (cases "f_less ops m (buf i)")
    case True
    with line_loop_shape[OF rec] \<open>i < n_FFT - min_line\<close> show ?thesis by auto
  next
    case False
    with j have "Suc i \<le> j" by (cases "j = i") auto
    with j False have "\<exists>j. Suc i \<le> j \<and> j < n_FFT - min_line \<and> f_less ops ?m (buf j)"
      by auto
    from "1.hyps"[OF \<open>i < n_FFT - min_line\<close> this rec] show ?thesis by simp
  qed
qed

lemma line_loop_max:
  "linear_on ops S \<Longrightarrow> m \<in> S \<Longrightarrow> \<forall>j. i \<le> j \<and> j < n_FFT - min_line \<longrightarrow> buf j \<in> S \<Longrightarrow>
     line_loop ops buf i (a, m, l) = (a', m', l') \<Longrightarrow>
     m' \<in> S \<and> (\<forall>j. i \<le> j \<and> j < n_FFT - min_line \<longrightarrow> \<not> f_less ops m' (buf j)) \<and>
     ((m' = m \<and> l' = l) \<or>
      (i \<le> l' \<and> l' < n_FFT - min_line \<and> m' = buf l' \<and> f_less ops m m' \<and>
       (\<forall>j. i \<le> j \<and> j < l' \<longrightarrow> f_less ops (buf j) m')))"
proof (induction ops buf i "(a, m, l)" arbitrary: a m l rule: line_loop.induct)
  case (1 ops buf i a m l)
  have irr: "\<not> f_less ops x x" if "x \<in> S" for x
    using "1.prems"(1) that unfolding linear_on_def by blast
  have tr: "f_less ops x z"
    if "x \<in> S" "y \<in> S" "z \<in> S" "f_less ops x y" "f_less ops y z" for x y z
    using "1.prems"(1) that unfolding linear_on_def by blast
  have tot: "f_less ops x y \<or> f_less ops y x" if "x \<in> S" "y \<in> S" "x \<noteq> y" for x y
    using "1.prems"(1) that unfolding linear_on_def by blast
  show ?case
  proof (cases "i < n_FFT - min_line")
    case False
    then have "m' = m" "l' = l" using "1.prems"(4) by (subst (asm) line_loop.simps, simp)+
    with False "1.prems"(2) show ?thesis by auto
  next
    case True
    let ?x = "buf i"
    let ?m = "if f_less ops m ?x then ?x else m"
    let ?l = "if f_less ops m ?x then i else l"
    have xS: "?x \<in> S" using True "1.prems"(3) by simp
    have mS: "?m \<in> S" using xS "1.prems"(2) by simp
    have bS: "\<forall>j. Suc i \<le> j \<and> j < n_FFT - min_line \<longrightarrow> buf j \<in> S"
      using "1.prems"(3) by simp
    have rec: "line_loop ops buf (Suc i) (f_add ops a ?x, ?m, ?l) = (a', m', l')"
      using True "1.prems"(4) by (subst (asm) line_loop.simps) simp
    from "1.hyps"[OF True "1.prems"(1) mS bS rec]
    have m'S: "m' \<in> S"
      and ub: "\<forall>j. Suc i \<le> j \<and> j < n_FFT - min_line \<longrightarrow> \<not> f_less ops m' (buf j)"
      and sh: "(m' = ?m \<and> l' = ?l) \<or>
               (Suc i \<le> l' \<and> l' < n_FFT - min_line \<and> m' = buf l' \<and> f_less ops ?m m' \<and>
                (\<forall>j. Suc i \<le> j \<and> j < l' \<longrightarrow> f_less ops (buf j) m'))"
      by blast+
    have ge: "m' = ?m \<or> f_less ops ?m m'" using sh by blast
    show ?thesis
    proof (cases "f_less ops m ?x")
      case lt: True
      then have ge': "m' = ?x \<or> f_less ops ?x m'" using ge by simp
      have nx: "\<not> f_less ops m' ?x"
        using ge' irr[OF xS] tr[OF xS m'S xS] by blast
      have mm': "f_less ops m m'"
        using ge' lt tr[OF "1.prems"(2) xS m'S] by blast
      have ub': "\<forall>j. i \<le> j \<and> j < n_FFT - min_line \<longrightarrow> \<not> f_less ops m' (buf j)"
      proof (intro allI impI)
        fix j assume "i \<le> j \<and> j < n_FFT - min_line"
        then show "\<not> f_less ops m' (buf j)" using ub nx by (cases "j = i") auto
      qed
      have "i \<le> l' \<and> l' < n_FFT - min_line \<and> m' = buf l' \<and>
            (\<forall>j. i \<le> j \<and> j < l' \<longrightarrow> f_less ops (buf j) m')"
      proof (cases "m' = ?m \<and> l' = ?l")
        case True
        with lt \<open>i < n_FFT - min_line\<close> show ?thesis by auto
      next
        case False
        with sh lt have *: "Suc i \<le> l'" "l' < n_FFT - min_line" "m' = buf l'"
          "f_less ops ?x m'" "\<forall>j. Suc i \<le> j \<and> j < l' \<longrightarrow> f_less ops (buf j) m'"
          by auto
        have "\<forall>j. i \<le> j \<and> j < l' \<longrightarrow> f_less ops (buf j) m'"
        proof (intro allI impI)
          fix j assume "i \<le> j \<and> j < l'"
          then show "f_less ops (buf j) m'" using * by (cases "j = i") auto
        qed
        with * show ?thesis by simp
      qed
      with m'S ub' mm' show ?thesis by blast
    next
      case nlt: False
      have nx: "\<not> f_less ops m' ?x"
      proof
        assume a: "f_less ops m' ?x"
        from ge nlt have "m' = m \<or> f_less ops m m'" by simp
        then show False
          using a nlt tr[OF "1.prems"(2) m'S xS] by blast
      qed
      have ub': "\<forall>j. i \<le> j \<and> j < n_FFT - min_line \<longrightarrow> \<not> f_less ops m' (buf j)"
      proof (intro allI impI)
        fix j assume "i \<le> j \<and> j < n_FFT - min_line"
        then show "\<not> f_less ops m' (buf j)" using ub nx by (cases "j = i") auto
      qed
      have "(m' = m \<and> l' = l) \<or>
            (i \<le> l' \<and> l' < n_FFT - min_line \<and> m' = buf l' \<and> f_less ops m m' \<and>
             (\<forall>j. i \<le> j \<and> j < l' \<longrightarrow> f_less ops (buf j) m'))"
      proof (cases "m' = ?m \<and> l' = ?l")
        case True
        with nlt show ?thesis by simp
      next
        case False
        with sh nlt have *: "Suc i \<le> l'" "l' < n_FFT - min_line" "m' = buf l'"
          "f_less ops m m'" "\<forall>j. Suc i \<le> j \<and> j < l' \<longrightarrow> f_less ops (buf j) m'"
          by auto
        have xm: "f_less ops ?x m'"
        proof (cases "?x = m")
          case True
          with * show ?thesis by simp
        next
          case False
          with tot[OF xS "1.prems"(2)] nlt have "f_less ops ?x m" by blast
          with tr[OF xS "1.prems"(2) m'S] * show ?thesis by blast
        qed
        have "\<forall>j. i \<le> j \<and> j < l' \<longrightarrow> f_less ops (buf j) m'"
        proof (intro allI impI)
          fix j assume "i \<le> j \<and> j < l'"
          then show "f_less ops (buf j) m'" using * xm by (cases "j = i") auto
        qed
        with * show ?thesis by simp
      qed
      with m'S ub' show ?thesis by blast
    qed
  qed
qed

lemma line_loop_zero:
  assumes "\<forall>j. i \<le> j \<and> j < n_FFT - min_line \<longrightarrow> buf j = z" and "f_add ops z z = z"
    and "a = z" and "m = z"
  shows "\<exists>l'. line_loop ops buf i (a, m, l) = (z, z, l')"
  using assms
proof (induction ops buf i "(a, m, l)" arbitrary: a m l rule: line_loop.induct)
  case (1 ops buf i a m l)
  show ?case
  proof (cases "i < n_FFT - min_line")
    case True
    then have b: "buf i = z" using "1.prems"(1) by simp
    have "\<exists>l'. line_loop ops buf (Suc i)
                 (f_add ops a (buf i), if f_less ops m (buf i) then buf i else m,
                  if f_less ops m (buf i) then i else l) = (z, z, l')"
      using "1.prems" by (intro "1.hyps"[OF True]) (simp_all add: b)
    then show ?thesis
      using True by (subst line_loop.simps) simp
  next
    case False
    then show ?thesis using "1.prems" by (subst line_loop.simps) simp
  qed
qed

lemma detect_average:
  "average_power (detect ops buf) =
     f_div ops (foldl (f_add ops) (f_zero ops) (map buf [min_line..<n_FFT - min_line]))
       (f_of_int ops (int n_FFT - 2 * int min_line))"
  using line_loop_sum[of ops buf min_line "f_zero ops" "f_zero ops" 0]
  by (auto simp: detect_def split: prod.splits)

lemma detect_ratio:
  "imbalance_ratio (detect ops buf) =
     f_div ops (maximum_power (detect ops buf)) (buf (n_FFT - maxLine (detect ops buf)))"
  by (simp add: detect_def split: prod.splits)

lemma detect_no_line:
  assumes "\<forall>j\<in>window. \<not> f_less ops (f_zero ops) (buf j)"
  shows "maxLine (detect ops buf) = 0" and "maximum_power (detect ops buf) = f_zero ops"
proof -
  have "\<forall>j. min_line \<le> j \<and> j < n_FFT - min_line \<longrightarrow> \<not> f_less ops (f_zero ops) (buf j)"
    using assms by (simp add: window_def)
  from line_loop_none[OF this, of "f_zero ops" 0]
  show "maxLine (detect ops buf) = 0" and "maximum_power (detect ops buf) = f_zero ops"
    by (auto simp: detect_def split: prod.splits)
qed

lemma detect_line:
  assumes "\<exists>j\<in>window. f_less ops (f_zero ops) (buf j)"
  shows "maxLine (detect ops buf) \<in> window"
    and "maximum_power (detect ops buf) = buf (maxLine (detect ops buf))"
proof -
  obtain a' m' l' where r: "line_loop ops buf min_line (f_zero ops, f_zero ops, 0) = (a', m', l')"
    by (cases "line_loop ops buf min_line (f_zero ops, f_zero ops, 0)") auto
  have "\<exists>j. min_line \<le> j \<and> j < n_FFT - min_line \<and> f_less ops (f_zero ops) (buf j)"
    using assms by (auto simp: window_def)
  from line_loop_some[OF this r]
  show "maxLine (detect ops buf) \<in> window"
    and "maximum_power (detect ops buf) = buf (maxLine (detect ops buf))"
    by (simp_all add: detect_def r window_def)
qed

lemma detect_maximum:
  assumes "linear_on ops (insert (f_zero ops) (buf ` window))"
    and "\<exists>j\<in>window. f_less ops (f_zero ops) (buf j)"
  shows "\<forall>j\<in>window. \<not> f_less ops (buf (maxLine (detect ops buf))) (buf j)"
    and "\<forall>j\<in>window. j < maxLine (detect ops buf) \<longrightarrow>
           f_less ops (buf j) (buf (maxLine (detect ops buf)))"
proof -
  let ?S = "insert (f_zero ops) (buf ` window)"
  obtain a' m' l' where r: "line_loop ops buf min_line (f_zero ops, f_zero ops, 0) = (a', m', l')"
    by (cases "line_loop ops buf min_line (f_zero ops, f_zero ops, 0)") auto
  have l: "maxLine (detect ops buf) = l'" by (simp add: detect_def r)
  have "\<exists>j. min_line \<le> j \<and> j < n_FFT - min_line \<and> f_less ops (f_zero ops) (buf j)"
    using assms(2) by (auto simp: window_def)
  from line_loop_some[OF this r]
  have l': "min_line \<le> l'" "l' < n_FFT - min_line" "m' = buf l'" by simp_all
  have b: "\<forall>j. min_line \<le> j \<and> j < n_FFT - min_line \<longrightarrow> buf j \<in> ?S"
    by (simp add: window_def)
  from line_loop_max[OF assms(1) _ b r]
  have ub: "\<forall>j. min_line \<le> j \<and> j < n_FFT - min_line \<longrightarrow> \<not> f_less ops m' (buf j)"
    and sh: "(m' = f_zero ops \<and> l' = 0) \<or>
             (\<forall>j. min_line \<le> j \<and> j < l' \<longrightarrow> f_less ops (buf j) m')"
    by auto
  have "l' \<noteq> 0" using l'(1) by (simp add: min_line_def)
  with sh have fi: "\<forall>j. min_line \<le> j \<and> j < l' \<longrightarrow> f_less ops (buf j) m'" by blast
  show "\<forall>j\<in>window. \<not> f_less ops (buf (maxLine (detect ops buf))) (buf j)"
    using ub l'(3) by (simp add: l window_def)
  show "\<forall>j\<in>window. j < maxLine (detect ops buf) \<longrightarrow>
           f_less ops (buf j) (buf (maxLine (detect ops buf)))"
    using fi l'(3) by (simp add: l window_def)
qed

subsection \<open>The state after a tick\<close>

lemma auto_detect_frame:
  "savedSample (auto_detect ops th d s) = savedSample s"
  "IQswap (auto_detect ops th d s) = IQswap s"
  "buffer (auto_detect ops th d s) = buffer s"
  by (simp_all add: auto_detect_def count_failure_def next_correction_def Let_def)

lemma detection_frame:
  "savedSample (detection ops prim th s dI dQ) = savedSample s"
  "IQswap (detection ops prim th s dI dQ) = IQswap s"
  by (simp_all add: detection_def auto_detect_frame Let_def)

lemma update_complete:
  assumes "delay_compensation s blockI blockQ = (s1, dI, dQ)"
    and "length dI = n_block" and "length dQ = n_block"
  shows "update ops prim th s (Some blockI) (Some blockQ) =
           (detection ops prim th s1 dI dQ,
            [Transmit BlockI (if IQswap s1 then dQ else dI) 0,
             Transmit BlockQ (if IQswap s1 then dI else dQ) 1,
             Release BlockQ, Release BlockI])"
  using assms by (simp add: update_def Let_def detection_frame channel_swap_eq)

lemma update_state:
  assumes "delay_compensation s blockI blockQ = (s1, dI, dQ)"
  shows "fst (update ops prim th s (Some blockI) (Some blockQ)) = detection ops prim th s1 dI dQ"
  using assms by (simp add: update_def Let_def split: prod.splits)

lemma update_enabled:
  assumes "autoDetectFlag s"
    and "delay_compensation s blockI blockQ = (s1, dI, dQ)"
  shows "fst (update ops prim th s (Some blockI) (Some blockQ)) =
           auto_detect ops th (tick_detector ops prim s blockI blockQ)
             (s1\<lparr>buffer := spectrum ops prim (buffer s1) dI dQ\<rparr>)"
  using assms delay_compensation_frame(2)[OF assms(2)]
  by (simp add: update_state[OF assms(2)] detection_def tick_detector_def Let_def)

lemma update_disabled:
  assumes "\<not> autoDetectFlag s"
  shows "autoDetectFlag (fst (update ops prim th s rI rQ)) = autoDetectFlag s"
    and "I2Scorrection (fst (update ops prim th s rI rQ)) = I2Scorrection s"
proof -
  have "autoDetectFlag (fst (update ops prim th s rI rQ)) = autoDetectFlag s \<and>
        I2Scorrection (fst (update ops prim th s rI rQ)) = I2Scorrection s"
  proof (cases "\<exists>bI bQ. rI = Some bI \<and> rQ = Some bQ")
    case True
    then obtain bI bQ where r: "rI = Some bI" "rQ = Some bQ" by blast
    obtain s1 dI dQ where dc: "delay_compensation s bI bQ = (s1, dI, dQ)"
      by (cases "delay_compensation s bI bQ") auto
    show ?thesis
      using assms delay_compensation_frame(1,2)[OF dc]
      by (simp add: r update_state[OF dc] detection_def)
  next
    case False
    then show ?thesis by (cases rI; cases rQ) (simp_all add: update_def)
  qed
  then show "autoDetectFlag (fst (update ops prim th s rI rQ)) = autoDetectFlag s"
    and "I2Scorrection (fst (update ops prim th s rI rQ)) = I2Scorrection s" by simp_all
qed

lemma run_disabled:
  "\<not> autoDetectFlag s \<Longrightarrow>
     \<not> autoDetectFlag (run ops prim th s ticks) \<and>
     I2Scorrection (run ops prim th s ticks) = I2Scorrection s"
proof (induction ticks arbitrary: s)
  case Nil
  then show ?case by simp
next
  case (Cons t ticks)
  obtain rI rQ where t: "t = (rI, rQ)" by (cases t)
  let ?s = "fst (update ops prim th s rI rQ)"
  have "\<not> autoDetectFlag ?s" and m: "I2Scorrection ?s = I2Scorrection s"
    using update_disabled[OF Cons.prems] Cons.prems by simp_all
  from Cons.IH[OF this(1)] m show ?case by (simp add: t)
qed

lemma auto_detect_freeze:
  "maxSuccessCount th < successCount (auto_detect ops th d s) \<Longrightarrow>
     \<not> autoDetectFlag (auto_detect ops th d s)"
  by (simp add: auto_detect_def Let_def split: if_splits)

lemma update_buffer:
  assumes "autoDetectFlag s"
    and "delay_compensation s blockI blockQ = (s1, dI, dQ)"
  shows "buffer (fst (update ops prim th s (Some blockI) (Some blockQ))) =
           spectrum ops prim (buffer s1) dI dQ"
  by (simp add: update_enabled[OF assms] auto_detect_frame)

lemma tick_buffer:
  assumes "autoDetectFlag s"
    and "update ops prim th s (Some blockI) (Some blockQ) = (s', es)"
  shows "tick_detector ops prim s blockI blockQ = detect ops (buffer s')"
proof -
  obtain s1 dI dQ where dc: "delay_compensation s blockI blockQ = (s1, dI, dQ)"
    by (cases "delay_compensation s blockI blockQ") auto
  have "buffer s' = spectrum ops prim (buffer s1) dI dQ"
    using update_buffer[OF assms(1) dc, of ops prim th] assms(2) by simp
  then show ?thesis by (simp add: tick_detector_def dc)
qed

lemma delay_I_carry:
  assumes "I2Scorrection s = 1" and "length blockI = n_block"
  shows "savedSample (fst (update ops prim th s (Some blockI) (Some blockQ))) =
           blockI ! (n_block - 1)"
proof -
  have "blockI \<noteq> []" using assms(2) by (auto simp: n_block_def)
  then have "last blockI = blockI ! (n_block - 1)"
    using assms(2) by (simp add: last_conv_nth)
  then show ?thesis
    by (simp add: update_state[OF delay_compensation_I[OF assms]] detection_frame)
qed

subsection \<open>The zero signal\<close>

lemma zero_gate_fails:
  assumes "zero_signal_laws ops prim th"
  shows "\<not> strength_gate ops th (detect ops (spectrum ops prim b zero_block zero_block))"
proof -
  let ?buf = "spectrum ops prim b zero_block zero_block"
  have z: "\<forall>j. min_line \<le> j \<and> j < n_FFT - min_line \<longrightarrow> ?buf j = f_zero ops"
    using assms by (simp add: zero_signal_laws_def window_def)
  have a: "f_add ops (f_zero ops) (f_zero ops) = f_zero ops"
    using assms by (simp add: zero_signal_laws_def)
  obtain l' where "line_loop ops ?buf min_line (f_zero ops, f_zero ops, 0) =
                     (f_zero ops, f_zero ops, l')"
    using line_loop_zero[OF z a refl refl] by blast
  then show ?thesis
    using assms by (simp add: detect_def strength_gate_def zero_signal_laws_def)
qed




subsection \<open>Ticks in exact arithmetic\<close>

text \<open>
  With exact arithmetic and the exact transform, the all-zero block pair has zero power
  in every element, and a unit impulse on channel I has power 1 in every line.
\<close>

lemma exact_linear_on: "linear_on exact_ops S"
  by (auto simp: linear_on_def exact_ops_def)

lemma exact_zero_spectrum:
  assumes "j < 256"
  shows "spectrum exact_ops exact_primitives b zero_block zero_block j = 0"
proof -
  let ?F = "fill_loop exact_ops zero_block zero_block 0 b"
  have F: "?F k = 0" if "k < 256" for k
    using that by (simp add: fill_loop_eq zero_block_def exact_ops_def)
  have G: "exact_cfft ?F k = 0" if "k < 256" for k
    using that by (simp add: exact_cfft_def F)
  show ?thesis
    using assms by (simp add: spectrum_def exact_primitives_def exact_mag_squared_def G)
qed

lemma exact_zero_signal_laws: "zero_signal_laws exact_ops exact_primitives th"
proof -
  have "\<forall>b. \<forall>j\<in>window.
          spectrum exact_ops exact_primitives b zero_block zero_block j = f_zero exact_ops"
    by (simp add: window_def n_FFT_def min_line_def exact_zero_spectrum)
       (simp add: exact_ops_def)
  then show ?thesis
    by (simp add: zero_signal_laws_def) (simp add: exact_ops_def)
qed

lemma exact_zero_tick_buffer:
  assumes "autoDetectFlag s"
    and "savedSample s = 0 \<or> (I2Scorrection s \<noteq> 1 \<and> I2Scorrection s \<noteq> - 1)"
    and "j < 256"
  shows "buffer (fst (update exact_ops exact_primitives th s
                        (Some zero_block) (Some zero_block))) j = 0"
  by (simp add: update_buffer[OF assms(1) zero_compensation[OF assms(2)]]
      exact_zero_spectrum[OF assms(3)])

lemma foldl_add_sum_list: "foldl (+) a xs = a + sum_list xs" for a :: real
  by (induction xs arbitrary: a) simp_all

lemma exact_fill_impulse:
  assumes "k < 256"
  shows "fill_loop exact_ops impulse_block zero_block 0 b k = (if k = 0 then 1 else 0)"
proof -
  have n: "f_norm exact_ops 32767 = 1" "f_norm exact_ops 0 = 0"
    by (simp_all add: exact_ops_def)
  have i: "impulse_block ! (k div 2) = (if k div 2 = 0 then 32767 else 0)"
    using assms by (simp add: impulse_block_def nth_Cons')
  have z: "zero_block ! (k div 2) = 0"
    using assms by (simp add: zero_block_def)
  show ?thesis
  proof (cases "even k")
    case True
    then have "k div 2 = 0 \<longleftrightarrow> k = 0" by auto
    with True assms show ?thesis by (simp add: fill_loop_eq i n)
  next
    case False
    then have "k \<noteq> 0" by (cases "k = 0") auto
    with False assms show ?thesis by (simp add: fill_loop_eq z n)
  qed
qed

lemma exact_cfft_impulse:
  assumes "j < 256"
  shows "exact_cfft (fill_loop exact_ops impulse_block zero_block 0 b) j =
           (if even j then 1 else 0)"
proof -
  let ?F = "fill_loop exact_ops impulse_block zero_block 0 b"
  have e: "?F (2 * n) = (if n = 0 then 1 else 0)" if "n < 128" for n
    using that by (simp add: exact_fill_impulse)
  have o: "?F (Suc (2 * n)) = 0" if "n < 128" for n
    using that by (simp add: exact_fill_impulse)
  have re: "(\<Sum>n<128. ?F (2 * n) * c n + ?F (2 * n + 1) * s n) = c 0" for c s :: "nat \<Rightarrow> real"
  proof -
    have "(\<Sum>n<128. ?F (2 * n) * c n + ?F (2 * n + 1) * s n) =
            (\<Sum>n\<in>{..<128::nat}. if n = 0 then c 0 else 0)"
      by (rule sum.cong) (auto simp: e o)
    then show ?thesis by simp
  qed
  have im: "(\<Sum>n<128. ?F (2 * n + 1) * c n - ?F (2 * n) * s n) = - s 0" for c s :: "nat \<Rightarrow> real"
  proof -
    have "(\<Sum>n<128. ?F (2 * n + 1) * c n - ?F (2 * n) * s n) =
            (\<Sum>n\<in>{..<128::nat}. if n = 0 then - s 0 else 0)"
      by (rule sum.cong) (auto simp: e o)
    then show ?thesis by simp
  qed
  show ?thesis
    using assms unfolding exact_cfft_def by (simp only: re im) simp
qed

lemma exact_impulse_spectrum:
  assumes "j < 128"
  shows "spectrum exact_ops exact_primitives b impulse_block zero_block j = 1"
  using assms
  by (simp add: spectrum_def exact_primitives_def exact_mag_squared_def exact_cfft_impulse)

lemma detect_flat:
  assumes "\<forall>j<128. buf j = 1"
  shows "detect exact_ops buf =
           \<lparr> maxLine = 5, average_power = 1, maximum_power = 1, imbalance_ratio = 1 \<rparr>"
proof -
  have w: "buf j = 1" if "j \<in> window" for j
    using that assms by (simp add: window_def n_FFT_def min_line_def)
  have pos: "\<exists>j\<in>window. f_less exact_ops (f_zero exact_ops) (buf j)"
  proof
    show "5 \<in> window" by (simp add: window_def n_FFT_def min_line_def)
    show "f_less exact_ops (f_zero exact_ops) (buf 5)" using assms by (simp add: exact_ops_def)
  qed
  let ?d = "detect exact_ops buf"
  have inw: "maxLine ?d \<in> window" using pos by (rule detect_line(1))
  have "\<forall>j\<in>window. j < maxLine ?d \<longrightarrow> f_less exact_ops (buf j) (buf (maxLine ?d))"
    using exact_linear_on pos by (rule detect_maximum(2))
  then have "\<forall>j\<in>window. \<not> j < maxLine ?d"
    using w inw by (auto simp: exact_ops_def)
  moreover have "5 \<in> window" by (simp add: window_def n_FFT_def min_line_def)
  ultimately have "maxLine ?d \<le> 5" by (meson not_le_imp_less)
  with inw have l: "maxLine ?d = 5" by (simp add: window_def min_line_def)
  have m: "maximum_power ?d = 1"
    using detect_line(2)[OF pos] assms by (simp add: l)
  have "map buf [min_line..<n_FFT - min_line] = map (\<lambda>_. 1) [min_line..<n_FFT - min_line]"
    by (rule map_cong) (simp_all add: w window_def)
  then have "foldl (+) 0 (map buf [min_line..<n_FFT - min_line]) = 118"
    by (simp add: foldl_add_sum_list sum_list_triv n_FFT_def min_line_def)
  then have a: "average_power ?d = 1"
    by (simp add: detect_average) (simp add: exact_ops_def n_FFT_def min_line_def)
  have r: "imbalance_ratio ?d = 1"
    using assms by (simp add: detect_ratio l m) (simp add: exact_ops_def n_FFT_def)
  from l a m r show ?thesis by (cases ?d) simp
qed

lemma impulse_tick_detector:
  assumes "delay_compensation s blockI blockQ = (s1, impulse_block, zero_block)"
  shows "tick_detector exact_ops exact_primitives s blockI blockQ =
           \<lparr> maxLine = 5, average_power = 1, maximum_power = 1, imbalance_ratio = 1 \<rparr>"
  by (simp add: tick_detector_def assms detect_flat exact_impulse_spectrum)

lemma impulse_gate:
  assumes "delay_compensation s blockI blockQ = (s1, impulse_block, zero_block)"
  shows "strength_gate exact_ops example_thresholds
           (tick_detector exact_ops exact_primitives s blockI blockQ)"
  unfolding impulse_tick_detector[OF assms]
  by (simp add: strength_gate_def exact_ops_def example_thresholds_def)

lemma impulse_ratio:
  assumes "delay_compensation s blockI blockQ = (s1, impulse_block, zero_block)"
  shows "ratio_too_low exact_ops example_thresholds
           (tick_detector exact_ops exact_primitives s blockI blockQ)"
  unfolding impulse_tick_detector[OF assms]
  by (simp add: ratio_too_low_def exact_ops_def example_thresholds_def)

lemma impulse_tick_counts:
  assumes "autoDetectFlag s"
    and "delay_compensation s blockI blockQ = (s1, impulse_block, zero_block)"
  shows "successCount (fst (update exact_ops exact_primitives example_thresholds s
                              (Some blockI) (Some blockQ))) =
           (if 5 < failureCount s + 1 then 1 else successCount s + 1)"
  unfolding update_enabled[OF assms]
  using impulse_gate[OF assms(2)] impulse_ratio[OF assms(2)]
    delay_compensation_frame[OF assms(2)]
  by (simp add: auto_detect_def count_failure_def next_correction_def Let_def
      example_thresholds_def)

lemma impulse_tick_buffer:
  assumes "autoDetectFlag s"
    and "delay_compensation s blockI blockQ = (s1, impulse_block, zero_block)"
    and "j < 128"
  shows "buffer (fst (update exact_ops exact_primitives th s (Some blockI) (Some blockQ))) j = 1"
  by (simp add: update_buffer[OF assms(1,2)] exact_impulse_spectrum[OF assms(3)])

subsection \<open>A history from the start of detection\<close>

lemma impulse_seen:
  assumes "autoDetectFlag s"
    and "delay_compensation s blockI blockQ = (s1, impulse_block, zero_block)"
  shows "counters (fst (update exact_ops exact_primitives example_thresholds s
                          (Some blockI) (Some blockQ))) =
           (if 5 < failureCount s + 1
            then (if 1 < I2Scorrection s + 1 then - 1 else I2Scorrection s + 1,
                  savedSample s1, True, 0, 1)
            else (I2Scorrection s, savedSample s1, \<not> 100 < successCount s + 1,
                  failureCount s + 1, successCount s + 1))"
  unfolding update_enabled[OF assms]
  using impulse_gate[OF assms(2)] impulse_ratio[OF assms(2)]
    delay_compensation_frame[OF assms(2)] assms(1)
  by (simp add: counters_def auto_detect_def count_failure_def next_correction_def Let_def
      example_thresholds_def)

lemma zeros_seen:
  assumes "autoDetectFlag s"
    and "delay_compensation s blockI blockQ = (s1, zero_block, zero_block)"
  shows "counters (fst (update exact_ops exact_primitives example_thresholds s
                          (Some blockI) (Some blockQ))) =
           (I2Scorrection s, savedSample s1, \<not> 100 < successCount s,
            failureCount s, successCount s)"
proof -
  have "\<not> strength_gate exact_ops example_thresholds
            (tick_detector exact_ops exact_primitives s blockI blockQ)"
    using zero_gate_fails[OF exact_zero_signal_laws, of example_thresholds "buffer s1"]
    by (simp add: tick_detector_def assms(2))
  then show ?thesis
    unfolding update_enabled[OF assms]
    using delay_compensation_frame[OF assms(2)] assms(1)
    by (simp add: counters_def auto_detect_def Let_def example_thresholds_def)
qed

lemma tail_block_facts:
  "length tail_block = n_block" "last tail_block = 32767"
  "0 # butlast tail_block = zero_block" "32767 # butlast tail_block = impulse_block"
  by (simp_all add: tail_block_def n_block_def zero_block_def impulse_block_def
      replicate_Suc[symmetric] del: replicate_Suc)

lemma zero_block_facts:
  "length zero_block = n_block" "last zero_block = 0"
  "32767 # butlast zero_block = impulse_block"
  by (simp_all add: n_block_def zero_block_def impulse_block_def butlast_conv_take)

lemma step_impulse:
  assumes "counters s = (0, c, True, f, n)"
  shows "counters (fst (update exact_ops exact_primitives example_thresholds s
                          (Some impulse_block) (Some zero_block))) =
           (if 5 < f + 1 then (1, c, True, 0, 1) else (0, c, \<not> 100 < n + 1, f + 1, n + 1))"
proof -
  from assms have m: "I2Scorrection s = 0" and en: "autoDetectFlag s"
    and r: "savedSample s = c" "failureCount s = f" "successCount s = n"
    by (simp_all add: counters_def)
  show ?thesis
    by (simp add: impulse_seen[OF en no_compensation[OF m]] m r)
qed

lemma step_tail_first:
  assumes "counters s = (1, 0, True, f, n)"
  shows "counters (fst (update exact_ops exact_primitives example_thresholds s
                          (Some tail_block) (Some zero_block))) =
           (1, 32767, \<not> 100 < n, f, n)"
proof -
  from assms have m: "I2Scorrection s = 1" and en: "autoDetectFlag s"
    and r: "savedSample s = 0" "failureCount s = f" "successCount s = n"
    by (simp_all add: counters_def)
  have dc: "delay_compensation s tail_block zero_block =
              (s\<lparr>savedSample := 32767\<rparr>, zero_block, zero_block)"
    using delay_compensation_I[OF m tail_block_facts(1), of zero_block]
    by (simp add: r tail_block_facts)
  show ?thesis
    by (simp add: zeros_seen[OF en dc] m r)
qed

lemma step_tail:
  assumes "counters s = (1, 32767, True, f, n)"
  shows "counters (fst (update exact_ops exact_primitives example_thresholds s
                          (Some tail_block) (Some zero_block))) =
           (if 5 < f + 1 then (- 1, 32767, True, 0, 1)
            else (1, 32767, \<not> 100 < n + 1, f + 1, n + 1))"
proof -
  from assms have m: "I2Scorrection s = 1" and en: "autoDetectFlag s"
    and r: "savedSample s = 32767" "failureCount s = f" "successCount s = n"
    by (simp_all add: counters_def)
  have dc: "delay_compensation s tail_block zero_block =
              (s\<lparr>savedSample := 32767\<rparr>, impulse_block, zero_block)"
    using delay_compensation_I[OF m tail_block_facts(1), of zero_block]
    by (simp add: r tail_block_facts)
  show ?thesis
    by (simp add: impulse_seen[OF en dc] m r)
qed

lemma carried_impulse:
  assumes "I2Scorrection s = 1" and "savedSample s = 32767"
  shows "delay_compensation s zero_block zero_block =
           (s\<lparr>savedSample := 0\<rparr>, impulse_block, zero_block)"
  using delay_compensation_I[OF assms(1) zero_block_facts(1), of zero_block]
  by (simp add: assms(2) zero_block_facts)

lemma warm_state_counters: "counters warm_state = (1, 32767, True, 5, 6)"
proof -
  let ?t = "\<lambda>s b. fst (update exact_ops exact_primitives example_thresholds s
                        (Some b) (Some zero_block))"
  let ?s0 = "startAutoI2SerrorDetection idle_state"
  let ?s1 = "?t ?s0 impulse_block"
  let ?s2 = "?t ?s1 impulse_block"
  let ?s3 = "?t ?s2 impulse_block"
  let ?s4 = "?t ?s3 impulse_block"
  let ?s5 = "?t ?s4 impulse_block"
  let ?s6 = "?t ?s5 impulse_block"
  let ?s7 = "?t ?s6 tail_block"
  let ?s8 = "?t ?s7 tail_block"
  let ?s9 = "?t ?s8 tail_block"
  let ?s10 = "?t ?s9 tail_block"
  let ?s11 = "?t ?s10 tail_block"
  let ?s12 = "?t ?s11 tail_block"
  have c0: "counters ?s0 = (0, 0, True, 0, 0)"
    by (simp add: counters_def startAutoI2SerrorDetection_def idle_state_def)
  have c1: "counters ?s1 = (0, 0, True, 1, 1)" using step_impulse[OF c0] by simp
  have c2: "counters ?s2 = (0, 0, True, 2, 2)" using step_impulse[OF c1] by simp
  have c3: "counters ?s3 = (0, 0, True, 3, 3)" using step_impulse[OF c2] by simp
  have c4: "counters ?s4 = (0, 0, True, 4, 4)" using step_impulse[OF c3] by simp
  have c5: "counters ?s5 = (0, 0, True, 5, 5)" using step_impulse[OF c4] by simp
  have c6: "counters ?s6 = (1, 0, True, 0, 1)" using step_impulse[OF c5] by simp
  have c7: "counters ?s7 = (1, 32767, True, 0, 1)" using step_tail_first[OF c6] by simp
  have c8: "counters ?s8 = (1, 32767, True, 1, 2)" using step_tail[OF c7] by simp
  have c9: "counters ?s9 = (1, 32767, True, 2, 3)" using step_tail[OF c8] by simp
  have c10: "counters ?s10 = (1, 32767, True, 3, 4)" using step_tail[OF c9] by simp
  have c11: "counters ?s11 = (1, 32767, True, 4, 5)" using step_tail[OF c10] by simp
  have c12: "counters ?s12 = (1, 32767, True, 5, 6)" using step_tail[OF c11] by simp
  have "warm_state = ?s12" by (simp add: warm_state_def warm_up_def Let_def)
  with c12 show ?thesis by simp
qed

lemma warm_state_fields:
  "I2Scorrection warm_state = 1" "savedSample warm_state = 32767" "autoDetectFlag warm_state"
  "failureCount warm_state = 5" "successCount warm_state = 6"
  using warm_state_counters by (simp_all add: counters_def)

lemma warm_state_zero_tick:
  "counters (fst (update exact_ops exact_primitives example_thresholds warm_state
                    (Some zero_block) (Some zero_block))) = (- 1, 0, True, 0, 1)"
  using impulse_seen[OF warm_state_fields(3)
      carried_impulse[OF warm_state_fields(1) warm_state_fields(2)]]
  by (simp add: warm_state_fields)

lemma warm_state_crossed:
  "failure_limit_crossed exact_ops exact_primitives example_thresholds warm_state
     zero_block zero_block"
  unfolding failure_limit_crossed_def
  using impulse_gate[OF carried_impulse[OF warm_state_fields(1) warm_state_fields(2)]]
    impulse_ratio[OF carried_impulse[OF warm_state_fields(1) warm_state_fields(2)]]
  by (simp add: count_failure_def warm_state_fields example_thresholds_def)

section \<open>The claims\<close>

subsection \<open>Delay compensation\<close>

text \<open>
  Claim C1. With \<^verbatim>\<open>I2Scorrection = -1\<close> (DelayQ) a tick should shift channel Q right by
  one sample, write the carried sample into Q[0] and keep Q's last sample as the new carry.
  The code shifts Q and keeps its last sample, but writes the carried sample into I[0]:
  at the input below, with carry 7, the emitted I block starts with 7 in place of its own
  first sample 1, and the emitted Q block starts with its own first sample 10 twice.
\<close>

theorem delay_Q_fills_I:
  "update exact_ops exact_primitives example_thresholds delayQ_state
       (Some (replicate 128 1)) (Some (10 # 20 # replicate 126 30)) =
     (delayQ_state\<lparr>savedSample := 30\<rparr>,
      [Transmit BlockI (7 # replicate 127 1) 0,
       Transmit BlockQ (10 # 10 # 20 # replicate 125 30) 1,
       Release BlockQ, Release BlockI])"
proof -
  have r: "replicate 128 (1::sample) = 1 # replicate 127 1"
    by (simp add: replicate_Suc[symmetric] del: replicate_Suc)
  have q: "butlast (replicate 126 (30::sample)) = replicate 125 30"
    by (simp add: butlast_conv_take)
  have dc: "delay_compensation delayQ_state (replicate 128 1) (10 # 20 # replicate 126 30) =
          (delayQ_state\<lparr>savedSample := 30\<rparr>, 7 # replicate 127 1,
           10 # 10 # 20 # replicate 125 30)"
    by (subst delay_compensation_Q) (simp_all add: delayQ_state_def n_block_def r q)
  have "update exact_ops exact_primitives example_thresholds delayQ_state
       (Some (replicate 128 1)) (Some (10 # 20 # replicate 126 30)) =
     (detection exact_ops exact_primitives example_thresholds (delayQ_state\<lparr>savedSample := 30\<rparr>)
        (7 # replicate 127 1) (10 # 10 # 20 # replicate 125 30),
      [Transmit BlockI
         (if IQswap (delayQ_state\<lparr>savedSample := 30\<rparr>)
          then 10 # 10 # 20 # replicate 125 30 else 7 # replicate 127 1) 0,
       Transmit BlockQ
         (if IQswap (delayQ_state\<lparr>savedSample := 30\<rparr>)
          then 7 # replicate 127 1 else 10 # 10 # 20 # replicate 125 30) 1,
       Release BlockQ, Release BlockI])"
    by (rule update_complete[OF dc]) (simp_all add: n_block_def)
  then show ?thesis
    by (simp add: detection_def delayQ_state_def)
qed

text \<open>
  Claim C2. With \<^verbatim>\<open>I2Scorrection = 1\<close> (DelayI) the I block that a tick emits has the
  carried sample of the state before the tick at index 0 and the original I[i - 1] at
  every index i from 1 to 127; the carry after the tick is the original I[127]. The
  emitted block followed by the new carry is the old carry followed by the original
  block, so no I sample is dropped or duplicated across ticks. When the state before the
  tick is the one left by a tick that ran with DelayI on the block I0, the emitted block
  starts with the last sample of I0.
\<close>

theorem delay_I_tick:
  assumes "I2Scorrection s = 1"
    and "length blockI = n_block" and "length blockQ = n_block"
    and "update ops prim th s (Some blockI) (Some blockQ) = (s', es)"
  shows "\<exists>E. emitted_I s' es = Some E \<and> length E = n_block \<and>
           E ! 0 = savedSample s \<and>
           (\<forall>i\<in>{1..<n_block}. E ! i = blockI ! (i - 1)) \<and>
           savedSample s' = blockI ! (n_block - 1) \<and>
           E @ [savedSample s'] = savedSample s # blockI \<and>
           (\<forall>s0 I0 Q0. I2Scorrection s0 = 1 \<and> length I0 = n_block \<and>
              s = fst (update ops prim th s0 (Some I0) (Some Q0)) \<longrightarrow>
              E ! 0 = I0 ! (n_block - 1))"
proof -
  let ?E = "savedSample s # butlast blockI"
  let ?s1 = "s\<lparr>savedSample := last blockI\<rparr>"
  have ne: "blockI \<noteq> []" using assms(2) by (auto simp: n_block_def)
  have dc: "delay_compensation s blockI blockQ = (?s1, ?E, blockQ)"
    using assms(1,2) by (rule delay_compensation_I)
  have len: "length ?E = n_block" using assms(2) by (simp add: n_block_def)
  have "update ops prim th s (Some blockI) (Some blockQ) =
          (detection ops prim th ?s1 ?E blockQ,
           [Transmit BlockI (if IQswap ?s1 then blockQ else ?E) 0,
            Transmit BlockQ (if IQswap ?s1 then ?E else blockQ) 1,
            Release BlockQ, Release BlockI])"
    using dc len assms(3) by (rule update_complete)
  with assms(4) have s': "s' = detection ops prim th ?s1 ?E blockQ"
    and es: "es = [Transmit BlockI (if IQswap s then blockQ else ?E) 0,
                   Transmit BlockQ (if IQswap s then ?E else blockQ) 1,
                   Release BlockQ, Release BlockI]"
    by simp_all
  have sw: "IQswap s' = IQswap s" and sv: "savedSample s' = last blockI"
    by (simp_all add: s' detection_frame)
  have 1: "emitted_I s' es = Some ?E"
    by (simp add: emitted_I_def sw es)
  have 2: "\<forall>i\<in>{1..<n_block}. ?E ! i = blockI ! (i - 1)"
    using assms(2) by (auto simp: nth_Cons' nth_butlast)
  have 3: "savedSample s' = blockI ! (n_block - 1)"
    using ne assms(2) by (simp add: sv last_conv_nth)
  have 4: "?E @ [savedSample s'] = savedSample s # blockI"
    using ne by (simp add: sv)
  have 5: "\<forall>s0 I0 Q0. I2Scorrection s0 = 1 \<and> length I0 = n_block \<and>
              s = fst (update ops prim th s0 (Some I0) (Some Q0)) \<longrightarrow>
              ?E ! 0 = I0 ! (n_block - 1)"
    by (auto simp: delay_I_carry)
  from 1 len 2 3 4 5 show ?thesis by (intro exI[of _ ?E]) simp
qed

theorem delay_I_tick_witness:
  "I2Scorrection delayI_state = 1 \<and> length impulse_block = n_block \<and>
   (\<exists>E. emitted_I
          (fst (update exact_ops exact_primitives example_thresholds delayI_state
                  (Some impulse_block) (Some zero_block)))
          (snd (update exact_ops exact_primitives example_thresholds delayI_state
                  (Some impulse_block) (Some zero_block))) = Some E \<and>
        length E = n_block \<and> E ! 0 = savedSample delayI_state \<and>
        (\<forall>i\<in>{1..<n_block}. E ! i = impulse_block ! (i - 1)) \<and>
        savedSample
          (fst (update exact_ops exact_primitives example_thresholds delayI_state
                  (Some impulse_block) (Some zero_block))) = impulse_block ! (n_block - 1) \<and>
        E @ [savedSample
               (fst (update exact_ops exact_primitives example_thresholds delayI_state
                       (Some impulse_block) (Some zero_block)))] =
          savedSample delayI_state # impulse_block)"
proof -
  have m: "I2Scorrection delayI_state = 1" by (simp add: delayI_state_def)
  have l: "length impulse_block = n_block" by (simp add: impulse_block_def n_block_def)
  have z: "length zero_block = n_block" by (simp add: zero_block_def n_block_def)
  show ?thesis
    using m l delay_I_tick [OF m l z prod.collapse [symmetric]] by blast
qed

subsection \<open>The streak counters and the correction mode\<close>

text \<open>
  Claim C3, as the code has it. In a tick with detection enabled in which the strength gate
  passes and the ratio is below \<^verbatim>\<open>minImbalanceRatio\<close>, \<^verbatim>\<open>failureCount\<close> is incremented
  and \<^verbatim>\<open>successCount\<close> is incremented as well: it is not reset by the verdict. Only when
  the incremented \<^verbatim>\<open>failureCount\<close> exceeds \<^verbatim>\<open>maxFailureCount\<close> does the mode advance;
  the tick then ends with \<^verbatim>\<open>failureCount = 0\<close> and \<^verbatim>\<open>successCount = 1\<close>.
\<close>

theorem unacceptable_verdict_tick:
  assumes "autoDetectFlag s"
    and "strength_gate ops th (tick_detector ops prim s blockI blockQ)"
    and "ratio_too_low ops th (tick_detector ops prim s blockI blockQ)"
    and "update ops prim th s (Some blockI) (Some blockQ) = (s', es)"
  shows "if maxFailureCount th < failureCount s + 1
         then failureCount s' = 0 \<and> successCount s' = 1 \<and>
              I2Scorrection s' = (if 1 < I2Scorrection s + 1 then - 1 else I2Scorrection s + 1)
         else failureCount s' = failureCount s + 1 \<and>
              successCount s' = successCount s + 1 \<and>
              I2Scorrection s' = I2Scorrection s"
proof -
  obtain s1 dI dQ where dc: "delay_compensation s blockI blockQ = (s1, dI, dQ)"
    by (cases "delay_compensation s blockI blockQ") auto
  note fr = delay_compensation_frame[OF dc]
  have "s' = auto_detect ops th (tick_detector ops prim s blockI blockQ)
               (s1\<lparr>buffer := spectrum ops prim (buffer s1) dI dQ\<rparr>)"
    using update_enabled[OF assms(1) dc, of ops prim th] assms(4) by simp
  then show ?thesis
    using assms(2,3) fr
    by (simp add: auto_detect_def count_failure_def next_correction_def Let_def)
qed

theorem unacceptable_verdict_tick_witness:
  "failureCount (fst (update exact_ops exact_primitives example_thresholds detecting_state
                        (Some impulse_block) (Some zero_block))) = 1 \<and>
   successCount (fst (update exact_ops exact_primitives example_thresholds detecting_state
                        (Some impulse_block) (Some zero_block))) = 4 \<and>
   I2Scorrection (fst (update exact_ops exact_primitives example_thresholds detecting_state
                        (Some impulse_block) (Some zero_block))) = 0"
proof -
  have en: "autoDetectFlag detecting_state" by (simp add: detecting_state_def)
  have dc: "delay_compensation detecting_state impulse_block zero_block =
              (detecting_state, impulse_block, zero_block)"
    by (rule no_compensation) (simp add: detecting_state_def)
  from unacceptable_verdict_tick
    [OF en impulse_gate [OF dc] impulse_ratio [OF dc] prod.collapse [symmetric]]
  show ?thesis by (simp add: detecting_state_def example_thresholds_def)
qed

text \<open>
  Claim C3 as stated fails. In the tick below (a unit impulse on channel I, no
  correction active, exact arithmetic) detection is enabled, the gate passes and the
  ratio is too low, and \<^verbatim>\<open>successCount\<close> goes from 3 to 4 where the claim has 0.
\<close>

theorem unacceptable_keeps_success_count:
  "autoDetectFlag detecting_state \<and>
   strength_gate exact_ops example_thresholds
     (tick_detector exact_ops exact_primitives detecting_state impulse_block zero_block) \<and>
   ratio_too_low exact_ops example_thresholds
     (tick_detector exact_ops exact_primitives detecting_state impulse_block zero_block) \<and>
   successCount detecting_state = 3 \<and>
   successCount (fst (update exact_ops exact_primitives example_thresholds detecting_state
                        (Some impulse_block) (Some zero_block))) = 4"
proof -
  have dc: "delay_compensation detecting_state impulse_block zero_block =
              (detecting_state, impulse_block, zero_block)"
    by (rule no_compensation) (simp add: detecting_state_def)
  have en: "autoDetectFlag detecting_state" and sc: "successCount detecting_state = 3"
    and fc: "failureCount detecting_state = 0"
    by (simp_all add: detecting_state_def)
  have "successCount (fst (update exact_ops exact_primitives example_thresholds detecting_state
                        (Some impulse_block) (Some zero_block))) = 4"
    by (simp add: impulse_tick_counts [OF en dc] sc fc)
  with en sc impulse_gate [OF dc] impulse_ratio [OF dc] show ?thesis by blast
qed

text \<open>
  Claim C4, as the code has it. In a tick with detection enabled, when the verdict takes
  \<^verbatim>\<open>failureCount\<close> above \<^verbatim>\<open>maxFailureCount\<close> the mode advances by one step of the cycle
  -1, 0, 1, -1. The advance sets both counters to 0 and the increment of line 148 follows
  in the same call, so the tick ends with \<^verbatim>\<open>failureCount = 0\<close> and
  \<^verbatim>\<open>successCount = 1\<close>. In every other tick with detection enabled the mode is unchanged.
\<close>

theorem mode_cycle_tick:
  assumes "autoDetectFlag s"
    and "update ops prim th s (Some blockI) (Some blockQ) = (s', es)"
  shows "(failure_limit_crossed ops prim th s blockI blockQ \<longrightarrow>
            (I2Scorrection s = - 1 \<longrightarrow> I2Scorrection s' = 0) \<and>
            (I2Scorrection s = 0 \<longrightarrow> I2Scorrection s' = 1) \<and>
            (I2Scorrection s = 1 \<longrightarrow> I2Scorrection s' = - 1) \<and>
            failureCount s' = 0 \<and> successCount s' = 1) \<and>
         (\<not> failure_limit_crossed ops prim th s blockI blockQ \<longrightarrow>
            I2Scorrection s' = I2Scorrection s)"
proof -
  obtain s1 dI dQ where dc: "delay_compensation s blockI blockQ = (s1, dI, dQ)"
    by (cases "delay_compensation s blockI blockQ") auto
  note fr = delay_compensation_frame[OF dc]
  have s': "s' = auto_detect ops th (tick_detector ops prim s blockI blockQ)
               (s1\<lparr>buffer := spectrum ops prim (buffer s1) dI dQ\<rparr>)"
    using update_enabled[OF assms(1) dc, of ops prim th] assms(2) by simp
  have 1: "failure_limit_crossed ops prim th s blockI blockQ \<longrightarrow>
            (I2Scorrection s = - 1 \<longrightarrow> I2Scorrection s' = 0) \<and>
            (I2Scorrection s = 0 \<longrightarrow> I2Scorrection s' = 1) \<and>
            (I2Scorrection s = 1 \<longrightarrow> I2Scorrection s' = - 1) \<and>
            failureCount s' = 0 \<and> successCount s' = 1"
    using fr
    by (simp add: s' failure_limit_crossed_def auto_detect_def count_failure_def
        next_correction_def Let_def)
  have 2: "\<not> failure_limit_crossed ops prim th s blockI blockQ \<longrightarrow>
             I2Scorrection s' = I2Scorrection s"
    using fr
    by (simp add: s' failure_limit_crossed_def auto_detect_def count_failure_def
        next_correction_def Let_def)
  from 1 2 show ?thesis by blast
qed

theorem mode_cycle_tick_witness:
  "failure_limit_crossed exact_ops exact_primitives example_thresholds failing_state
     zero_block zero_block \<and>
   I2Scorrection failing_state = 1 \<and>
   I2Scorrection (fst (update exact_ops exact_primitives example_thresholds failing_state
                         (Some zero_block) (Some zero_block))) = - 1 \<and>
   failureCount (fst (update exact_ops exact_primitives example_thresholds failing_state
                        (Some zero_block) (Some zero_block))) = 0 \<and>
   successCount (fst (update exact_ops exact_primitives example_thresholds failing_state
                        (Some zero_block) (Some zero_block))) = 1"
proof -
  have en: "autoDetectFlag failing_state" and m: "I2Scorrection failing_state = 1"
    by (simp_all add: failing_state_def)
  have "maxFailureCount example_thresholds <
          failureCount (count_failure True failing_state)"
    by (simp add: count_failure_def failing_state_def example_thresholds_def)
  then have cr: "failure_limit_crossed exact_ops exact_primitives example_thresholds
                   failing_state zero_block zero_block"
    unfolding failure_limit_crossed_def
    using impulse_gate [OF carry_compensation] impulse_ratio [OF carry_compensation] by simp
  from mode_cycle_tick [OF en prod.collapse [symmetric]] cr m
  show ?thesis by blast
qed

text \<open>
  Claim C4 as stated fails. The state below is reached from the start of detection by the
  twelve ticks of \<open>warm_up\<close>. In its next tick, on the all-zero block pair, the
  carried sample makes the detector see a unit impulse, the verdict takes
  \<^verbatim>\<open>failureCount\<close> from 5 above the limit 5 and the mode advances from 1 to -1; the tick
  ends with \<^verbatim>\<open>successCount = 1\<close> where the claim has 0.
\<close>

theorem advance_leaves_success_count_one:
  "autoDetectFlag warm_state \<and>
   failure_limit_crossed exact_ops exact_primitives example_thresholds warm_state
     zero_block zero_block \<and>
   I2Scorrection warm_state = 1 \<and>
   I2Scorrection (fst (update exact_ops exact_primitives example_thresholds warm_state
                         (Some zero_block) (Some zero_block))) = - 1 \<and>
   successCount (fst (update exact_ops exact_primitives example_thresholds warm_state
                        (Some zero_block) (Some zero_block))) = 1"
  using warm_state_zero_tick warm_state_crossed warm_state_fields
  by (simp add: counters_def)

text \<open>
  Claim C5. When a tick ends with \<^verbatim>\<open>successCount\<close> above \<^verbatim>\<open>maxSuccessCount\<close>, detection is
  off after it, and over every further run of ticks (with or without blocks) it stays off
  and the mode keeps its value. The control functions are what changes them again: start
  turns detection on and sets the mode to 0, stop sets the mode to 0, the manual setter
  sets the requested mode.
\<close>

theorem freeze_persists:
  assumes "update ops prim th s (Some blockI) (Some blockQ) = (s', es)"
    and "maxSuccessCount th < successCount s'"
  shows "\<not> autoDetectFlag s' \<and>
         (\<forall>ticks. \<not> autoDetectFlag (run ops prim th s' ticks) \<and>
                   I2Scorrection (run ops prim th s' ticks) = I2Scorrection s') \<and>
         autoDetectFlag (startAutoI2SerrorDetection s') \<and>
         I2Scorrection (startAutoI2SerrorDetection s') = 0 \<and>
         I2Scorrection (stopAutoI2SerrorDetection s') = 0 \<and>
         I2Scorrection (setI2SerrorCompensation c s') = c"
proof -
  obtain s1 dI dQ where dc: "delay_compensation s blockI blockQ = (s1, dI, dQ)"
    by (cases "delay_compensation s blockI blockQ") auto
  have s': "s' = detection ops prim th s1 dI dQ"
    using update_state[OF dc, of ops prim th] assms(1) by simp
  have off: "\<not> autoDetectFlag s'"
  proof (cases "autoDetectFlag s1")
    case True
    with assms(2) show ?thesis
      by (simp add: s' detection_def Let_def auto_detect_freeze)
  next
    case False
    then show ?thesis by (simp add: s' detection_def)
  qed
  from off run_disabled[OF off] show ?thesis
    by (simp add: startAutoI2SerrorDetection_def stopAutoI2SerrorDetection_def
        setI2SerrorCompensation_def)
qed

theorem freeze_persists_witness:
  "maxSuccessCount example_thresholds <
     successCount (fst (update exact_ops exact_primitives example_thresholds confident_state
                          (Some impulse_block) (Some zero_block))) \<and>
   \<not> autoDetectFlag (fst (update exact_ops exact_primitives example_thresholds confident_state
                             (Some impulse_block) (Some zero_block))) \<and>
   (\<forall>ticks.
      \<not> autoDetectFlag
          (run exact_ops exact_primitives example_thresholds
             (fst (update exact_ops exact_primitives example_thresholds confident_state
                     (Some impulse_block) (Some zero_block))) ticks) \<and>
      I2Scorrection
          (run exact_ops exact_primitives example_thresholds
             (fst (update exact_ops exact_primitives example_thresholds confident_state
                     (Some impulse_block) (Some zero_block))) ticks) =
        I2Scorrection
          (fst (update exact_ops exact_primitives example_thresholds confident_state
                  (Some impulse_block) (Some zero_block))))"
proof -
  have en: "autoDetectFlag confident_state" by (simp add: confident_state_def)
  have dc: "delay_compensation confident_state impulse_block zero_block =
              (confident_state, impulse_block, zero_block)"
    by (rule no_compensation) (simp add: confident_state_def)
  have h: "maxSuccessCount example_thresholds <
     successCount (fst (update exact_ops exact_primitives example_thresholds confident_state
                          (Some impulse_block) (Some zero_block)))"
    unfolding impulse_tick_counts [OF en dc]
    by (simp add: confident_state_def example_thresholds_def)
  from freeze_persists [OF prod.collapse [symmetric] h] h
  show ?thesis by blast
qed

subsection \<open>Missing blocks\<close>

text \<open>
  Claim C6. A tick in which either block is unavailable leaves every member variable as it
  was, transmits nothing, and releases each block that was acquired exactly once (these
  releases are its only events).
\<close>

theorem missing_block_tick:
  assumes "rI = None \<or> rQ = None"
    and "update ops prim th s rI rQ = (s', es)"
  shows "s' = s \<and> (\<forall>c. transmitted es c = None) \<and>
         count_list es (Release BlockI) = (if rI = None then 0 else 1) \<and>
         count_list es (Release BlockQ) = (if rQ = None then 0 else 1) \<and>
         length es = (if rI = None then 0 else 1) + (if rQ = None then 0 else 1)"
  using assms by (cases rI; cases rQ) (auto simp: update_def)

theorem missing_block_tick_witness:
  "fst (update exact_ops exact_primitives example_thresholds delayI_state
          (Some zero_block) None) = delayI_state \<and>
   snd (update exact_ops exact_primitives example_thresholds delayI_state
          (Some zero_block) None) = [Release BlockI]"
proof -
  have "(Some zero_block = None \<or> (None :: sample list option) = None)" by simp
  from missing_block_tick [OF this prod.collapse [symmetric]]
  show ?thesis
    by (simp add: update_def)
qed

subsection \<open>Channel swap\<close>

text \<open>
  Claim C7. On two blocks of 128 samples the swap loop exchanges the blocks, and applying
  it twice gives back both original blocks, sample for sample.
\<close>

theorem swap_involution:
  assumes "length dI = n_block" and "length dQ = n_block"
  shows "channel_swap (dI, dQ) = (dQ, dI) \<and> channel_swap (channel_swap (dI, dQ)) = (dI, dQ)"
  using assms by (simp add: channel_swap_eq)

theorem swap_involution_witness:
  "channel_swap (channel_swap (zero_block, replicate 128 1)) = (zero_block, replicate 128 1)"
proof -
  have "length zero_block = n_block" and "length (replicate 128 (1::sample)) = n_block"
    by (simp_all add: zero_block_def n_block_def)
  from swap_involution [OF this] show ?thesis by (rule conjunct2)
qed

subsection \<open>The detector\<close>

text \<open>
  Claim C8, as the code has it. In a tick with detection enabled whose power spectrum has
  a strictly positive line in the window from \<^verbatim>\<open>min\<close> to \<^verbatim>\<open>n_FFT - min\<close> (and whose
  window powers are linearly ordered by the float comparison), \<^verbatim>\<open>maxLine\<close> is the first
  line of maximum power in the window, \<^verbatim>\<open>average_power\<close> is the sum of the window's
  powers, added in order from 0.0, divided by \<^verbatim>\<open>n_FFT - 2 * min\<close>, the ratio is the power
  at \<^verbatim>\<open>maxLine\<close> divided by the power at \<^verbatim>\<open>n_FFT - maxLine\<close>, and the gate compares
  the power at \<^verbatim>\<open>maxLine\<close> with \<^verbatim>\<open>spectralAvgMultiplier * average_power\<close>. When the gate
  fails the counters and the mode are left alone; when it passes, the comparison of the
  ratio with \<^verbatim>\<open>minImbalanceRatio\<close> decides \<^verbatim>\<open>failureCount\<close>.
\<close>

theorem detector_computation:
  assumes "autoDetectFlag s"
    and "update ops prim th s (Some blockI) (Some blockQ) = (s', es)"
    and "linear_on ops (insert (f_zero ops) (buffer s' ` window))"
    and "\<exists>j\<in>window. f_less ops (f_zero ops) (buffer s' j)"
  shows "let d = tick_detector ops prim s blockI blockQ; power = buffer s' in
           maxLine d \<in> window \<and>
           (\<forall>j\<in>window. \<not> f_less ops (power (maxLine d)) (power j)) \<and>
           (\<forall>j\<in>window. j < maxLine d \<longrightarrow> f_less ops (power j) (power (maxLine d))) \<and>
           average_power d =
             f_div ops
               (foldl (f_add ops) (f_zero ops) (map power [min_line..<n_FFT - min_line]))
               (f_of_int ops (int n_FFT - 2 * int min_line)) \<and>
           imbalance_ratio d = f_div ops (power (maxLine d)) (power (n_FFT - maxLine d)) \<and>
           strength_gate ops th d =
             f_less ops (f_mul ops (spectralAvgMultiplier th) (average_power d))
               (power (maxLine d)) \<and>
           (\<not> strength_gate ops th d \<longrightarrow>
              failureCount s' = failureCount s \<and> successCount s' = successCount s \<and>
              I2Scorrection s' = I2Scorrection s) \<and>
           (strength_gate ops th d \<longrightarrow>
              failureCount s' =
                (if f_less ops (imbalance_ratio d) (minImbalanceRatio th)
                 then (if maxFailureCount th < failureCount s + 1 then 0
                       else failureCount s + 1)
                 else 0))"
proof -
  let ?d = "tick_detector ops prim s blockI blockQ"
  let ?p = "buffer s'"
  have d: "?d = detect ops ?p" using assms(1,2) by (rule tick_buffer)
  obtain s1 dI dQ where dc: "delay_compensation s blockI blockQ = (s1, dI, dQ)"
    by (cases "delay_compensation s blockI blockQ") auto
  note fr = delay_compensation_frame[OF dc]
  have s': "s' = auto_detect ops th ?d (s1\<lparr>buffer := spectrum ops prim (buffer s1) dI dQ\<rparr>)"
    using update_enabled[OF assms(1) dc, of ops prim th] assms(2) by simp
  have mx: "maximum_power ?d = ?p (maxLine ?d)"
    unfolding d using assms(4) by (rule detect_line(2))
  have 1: "maxLine ?d \<in> window" unfolding d using assms(4) by (rule detect_line(1))
  have 2: "\<forall>j\<in>window. \<not> f_less ops (?p (maxLine ?d)) (?p j)"
    unfolding d using assms(3,4) by (rule detect_maximum(1))
  have 3: "\<forall>j\<in>window. j < maxLine ?d \<longrightarrow> f_less ops (?p j) (?p (maxLine ?d))"
    unfolding d using assms(3,4) by (rule detect_maximum(2))
  have 4: "average_power ?d =
             f_div ops
               (foldl (f_add ops) (f_zero ops) (map ?p [min_line..<n_FFT - min_line]))
               (f_of_int ops (int n_FFT - 2 * int min_line))"
    unfolding d by (rule detect_average)
  have 5: "imbalance_ratio ?d = f_div ops (?p (maxLine ?d)) (?p (n_FFT - maxLine ?d))"
    using detect_ratio[of ops ?p] mx by (simp add: d)
  have 6: "strength_gate ops th ?d =
             f_less ops (f_mul ops (spectralAvgMultiplier th) (average_power ?d))
               (?p (maxLine ?d))"
    by (simp add: strength_gate_def mx)
  have 7: "\<not> strength_gate ops th ?d \<longrightarrow>
              failureCount s' = failureCount s \<and> successCount s' = successCount s \<and>
              I2Scorrection s' = I2Scorrection s"
    using fr by (simp add: s' auto_detect_def Let_def)
  have 8: "strength_gate ops th ?d \<longrightarrow>
              failureCount s' =
                (if f_less ops (imbalance_ratio ?d) (minImbalanceRatio th)
                 then (if maxFailureCount th < failureCount s + 1 then 0
                       else failureCount s + 1)
                 else 0)"
    using fr
    by (simp add: s' auto_detect_def ratio_too_low_def count_failure_def next_correction_def
        Let_def)
  from 1 2 3 4 5 6 7 8 show ?thesis unfolding Let_def by blast
qed

theorem detector_computation_witness:
  "(\<exists>j\<in>window. f_less exact_ops (f_zero exact_ops)
       (buffer (fst (update exact_ops exact_primitives example_thresholds detecting_state
                       (Some impulse_block) (Some zero_block))) j)) \<and>
   maxLine (tick_detector exact_ops exact_primitives detecting_state impulse_block zero_block)
     \<in> window \<and>
   strength_gate exact_ops example_thresholds
     (tick_detector exact_ops exact_primitives detecting_state impulse_block zero_block) \<and>
   failureCount (fst (update exact_ops exact_primitives example_thresholds detecting_state
                        (Some impulse_block) (Some zero_block))) = 1"
proof -
  let ?U = "update exact_ops exact_primitives example_thresholds detecting_state
              (Some impulse_block) (Some zero_block)"
  have en: "autoDetectFlag detecting_state" by (simp add: detecting_state_def)
  have dc: "delay_compensation detecting_state impulse_block zero_block =
              (detecting_state, impulse_block, zero_block)"
    by (rule no_compensation) (simp add: detecting_state_def)
  have b: "buffer (fst ?U) 5 = 1" using en dc by (rule impulse_tick_buffer) simp
  have "f_less exact_ops (f_zero exact_ops) (buffer (fst ?U) 5)" and "5 \<in> window"
    unfolding b by (simp_all add: exact_ops_def window_def n_FFT_def min_line_def)
  then have pos: "\<exists>j\<in>window. f_less exact_ops (f_zero exact_ops) (buffer (fst ?U) j)"
    by blast
  note g = impulse_gate [OF dc]
  note r = impulse_ratio [OF dc]
  have fc: "failureCount detecting_state = 0" by (simp add: detecting_state_def)
  have mf: "maxFailureCount example_thresholds = 5" by (simp add: example_thresholds_def)
  from detector_computation [where ops = exact_ops and prim = exact_primitives
      and th = example_thresholds and blockI = impulse_block and blockQ = zero_block,
      OF en prod.collapse [symmetric] exact_linear_on pos]
  have "maxLine (tick_detector exact_ops exact_primitives detecting_state impulse_block
                   zero_block) \<in> window"
    and "failureCount (fst ?U) = 1"
    using g r fc mf unfolding Let_def ratio_too_low_def by simp_all
  with pos g show ?thesis by blast
qed

text \<open>
  Claim C8 as stated fails where no line of the window has positive power: on the all-zero
  block pair, in exact arithmetic, \<^verbatim>\<open>maxLine\<close> keeps its initial value 0, which is not a
  line of the window.
\<close>

theorem zero_spectrum_line:
  "autoDetectFlag detecting_state \<and>
   maxLine (tick_detector exact_ops exact_primitives detecting_state zero_block zero_block) = 0 \<and>
   maxLine (tick_detector exact_ops exact_primitives detecting_state zero_block zero_block)
     \<notin> window"
proof -
  let ?U = "update exact_ops exact_primitives example_thresholds detecting_state
              (Some zero_block) (Some zero_block)"
  have en: "autoDetectFlag detecting_state" and sv: "savedSample detecting_state = 0"
    by (simp_all add: detecting_state_def)
  have d: "tick_detector exact_ops exact_primitives detecting_state zero_block zero_block =
             detect exact_ops (buffer (fst ?U))"
    using en prod.collapse [symmetric] by (rule tick_buffer)
  have "\<forall>j\<in>window. \<not> f_less exact_ops (f_zero exact_ops) (buffer (fst ?U) j)"
  proof
    fix j assume "j \<in> window"
    then have "j < 256" by (simp add: window_def n_FFT_def min_line_def)
    from exact_zero_tick_buffer[OF en disjI1[OF sv] this, of example_thresholds]
    show "\<not> f_less exact_ops (f_zero exact_ops) (buffer (fst ?U) j)"
      by (simp add: exact_ops_def)
  qed
  then have "maxLine (detect exact_ops (buffer (fst ?U))) = 0" by (rule detect_no_line(1))
  with en d show ?thesis by (simp add: window_def min_line_def)
qed




text \<open>
  Claim C10. The line \<^verbatim>\<open>n_FFT - maxLine\<close> read by the ratio is below 128, inside the
  power spectrum, exactly when \<^verbatim>\<open>maxLine\<close> is at least 1. \<^verbatim>\<open>maxLine\<close> leaves its initial
  value 0 only for a line of the window, and only when some line of the window has power
  above 0.0. The ratio is computed from the element at \<^verbatim>\<open>n_FFT - maxLine\<close> whatever the
  gate will say; when no line of the window has power above 0.0, as for the all-zero
  block pair, that element is \<^verbatim>\<open>buffer[128]\<close>.
\<close>

theorem mirror_line_read:
  assumes "autoDetectFlag s"
    and "update ops prim th s (Some blockI) (Some blockQ) = (s', es)"
  shows "let d = tick_detector ops prim s blockI blockQ; power = buffer s' in
           (n_FFT - maxLine d < n_FFT \<longleftrightarrow> 1 \<le> maxLine d) \<and>
           (maxLine d \<noteq> 0 \<longrightarrow>
              maxLine d \<in> window \<and> (\<exists>j\<in>window. f_less ops (f_zero ops) (power j))) \<and>
           imbalance_ratio d = f_div ops (maximum_power d) (power (n_FFT - maxLine d)) \<and>
           ((\<forall>j\<in>window. \<not> f_less ops (f_zero ops) (power j)) \<longrightarrow>
              maxLine d = 0 \<and> n_FFT - maxLine d = 128 \<and> \<not> n_FFT - maxLine d < n_FFT \<and>
              imbalance_ratio d = f_div ops (f_zero ops) (power 128))"
proof -
  let ?d = "tick_detector ops prim s blockI blockQ"
  let ?p = "buffer s'"
  have d: "?d = detect ops ?p" using assms by (rule tick_buffer)
  have 1: "n_FFT - maxLine ?d < n_FFT \<longleftrightarrow> 1 \<le> maxLine ?d"
    by (auto simp: n_FFT_def)
  have 2: "maxLine ?d \<noteq> 0 \<longrightarrow>
             maxLine ?d \<in> window \<and> (\<exists>j\<in>window. f_less ops (f_zero ops) (?p j))"
  proof
    assume n: "maxLine ?d \<noteq> 0"
    have "\<not> (\<forall>j\<in>window. \<not> f_less ops (f_zero ops) (?p j))"
      using detect_no_line(1)[of ops ?p] n by (auto simp: d)
    then have ex: "\<exists>j\<in>window. f_less ops (f_zero ops) (?p j)" by blast
    from detect_line(1)[OF this] ex
    show "maxLine ?d \<in> window \<and> (\<exists>j\<in>window. f_less ops (f_zero ops) (?p j))"
      by (simp add: d)
  qed
  have 3: "imbalance_ratio ?d = f_div ops (maximum_power ?d) (?p (n_FFT - maxLine ?d))"
    unfolding d by (rule detect_ratio)
  have 4: "(\<forall>j\<in>window. \<not> f_less ops (f_zero ops) (?p j)) \<longrightarrow>
              maxLine ?d = 0 \<and> n_FFT - maxLine ?d = 128 \<and> \<not> n_FFT - maxLine ?d < n_FFT \<and>
              imbalance_ratio ?d = f_div ops (f_zero ops) (?p 128)"
  proof
    assume a: "\<forall>j\<in>window. \<not> f_less ops (f_zero ops) (?p j)"
    have m: "maxLine ?d = 0" and x: "maximum_power ?d = f_zero ops"
      unfolding d using a by (rule detect_no_line)+
    show "maxLine ?d = 0 \<and> n_FFT - maxLine ?d = 128 \<and> \<not> n_FFT - maxLine ?d < n_FFT \<and>
              imbalance_ratio ?d = f_div ops (f_zero ops) (?p 128)"
      using 3 by (simp add: m x n_FFT_def)
  qed
  from 1 2 3 4 show ?thesis unfolding Let_def by blast
qed

theorem mirror_line_read_witness:
  "autoDetectFlag detecting_state \<and>
   maxLine (tick_detector exact_ops exact_primitives detecting_state zero_block zero_block) = 0 \<and>
   n_FFT -
     maxLine (tick_detector exact_ops exact_primitives detecting_state zero_block zero_block)
     = 128 \<and>
   imbalance_ratio
     (tick_detector exact_ops exact_primitives detecting_state zero_block zero_block) =
     f_div exact_ops (f_zero exact_ops)
       (buffer (fst (update exact_ops exact_primitives example_thresholds detecting_state
                       (Some zero_block) (Some zero_block))) 128)"
proof -
  let ?U = "update exact_ops exact_primitives example_thresholds detecting_state
              (Some zero_block) (Some zero_block)"
  have en: "autoDetectFlag detecting_state" and sv: "savedSample detecting_state = 0"
    by (simp_all add: detecting_state_def)
  have z: "\<forall>j\<in>window. \<not> f_less exact_ops (f_zero exact_ops) (buffer (fst ?U) j)"
  proof
    fix j assume "j \<in> window"
    then have "j < 256" by (simp add: window_def n_FFT_def min_line_def)
    from exact_zero_tick_buffer[OF en disjI1[OF sv] this, of example_thresholds]
    show "\<not> f_less exact_ops (f_zero exact_ops) (buffer (fst ?U) j)"
      by (simp add: exact_ops_def)
  qed
  from mirror_line_read [where ops = exact_ops and prim = exact_primitives
      and th = example_thresholds and blockI = zero_block and blockQ = zero_block,
      OF en prod.collapse [symmetric]] z en
  show ?thesis unfolding Let_def by blast
qed

end
